theory Spec2Isabelle
  imports Complex_Main
begin

section \<open>Data model: trees and clades of the tree library\<close>

text \<open>
  The scripts work on the tree objects of Bio.Phylo. A clade has child clades, an optional
  branch length, an optional confidence, an optional name and the optional graphics
  annotations \<open>color\<close> and \<open>width\<close>. Clade objects are used as dictionary keys and
  compared with \<open>is\<close>; they hash by object identity. The field \<open>oid\<close> is that identity
  (what Python's \<open>id(clade)\<close> tells apart). In a tree every clade object occurs at one
  position only, which is the predicate \<open>wf_tree\<close> below. Python's floats are read as
  real numbers throughout: branch lengths, widths and coordinates are of type \<open>real\<close>.
\<close>

datatype branch_color = BranchColor (red: nat) (green: nat) (blue: nat)

datatype clade = Clade
  (oid: nat)
  (name: "string option")
  (branch_length: "real option")
  (confidence: "real option")
  (color: "branch_color option")
  (width: "real option")
  (clades: "clade list")

datatype tree = Tree (root_clade: clade) (tree_name: "string option")

text \<open>A dictionary keyed by clade objects.\<close>

type_synonym 'v clade_dict = "nat \<rightharpoonup> 'v"

datatype pyval =
    PNone
  | PBool bool
  | PInt int
  | PFloat real
  | PStr string
  | PTuple "pyval list"
  | PList "pyval list"
  | PDict "(string \<times> pyval) list"

text \<open>
  Exceptions. A formatted message is kept as its template together with the values
  substituted for the \<open>%s\<close> places, in order.
\<close>

datatype py_error =
    KeyError
  | IndexError
  | ZeroDivisionError
  | TypeError string
  | NameError string
  | AttributeError string
  | ImportError string
  | FileNotFoundError string
  | ValueError string "pyval list"
  | MissingPythonDependencyError string

subsection \<open>Tree-library traversals used by the scripts\<close>

text \<open>
  \<open>find_clades\<close> is the library's preorder traversal of all clades below (and including)
  a clade; \<open>get_terminals\<close> keeps the clades without children, in that order, and
  \<open>count_terminals\<close> counts them.
\<close>

fun find_clades :: "clade \<Rightarrow> clade list" where
  "find_clades (Clade i n b cf col w cs) =
     Clade i n b cf col w cs # concat (map find_clades cs)"

definition is_terminal :: "clade \<Rightarrow> bool" where
  "is_terminal c = (clades c = [])"

definition get_terminals :: "tree \<Rightarrow> clade list" where
  "get_terminals t = filter is_terminal (find_clades (root_clade t))"

definition count_terminals :: "tree \<Rightarrow> nat" where
  "count_terminals t = length (get_terminals t)"

definition wf_tree :: "tree \<Rightarrow> bool" where
  "wf_tree t = distinct (map oid (find_clades (root_clade t)))"

section \<open>Vertical layout: get_y_positions\<close>

text \<open>
  The dictionary comprehension over \<open>enumerate(reversed(tree.get_terminals()))\<close>: entries are
  stored in iteration order, a later entry for the same key replacing an earlier one.
\<close>

definition tip_entry :: "(nat \<Rightarrow> real) \<Rightarrow> nat \<times> clade \<Rightarrow> real clade_dict \<Rightarrow> real clade_dict" where
  "tip_entry f e heights = (case e of (i, tip) \<Rightarrow> heights(oid tip \<mapsto> f i))"

definition tip_heights :: "(nat \<Rightarrow> real) \<Rightarrow> clade list \<Rightarrow> real clade_dict" where
  "tip_heights f tips = fold (tip_entry f) (enumerate 0 (rev tips)) Map.empty"

text \<open>
  \<open>calc_row\<close> closes over \<open>heights\<close> and updates it in place; here the dictionary is passed
  and returned. \<open>clade.clades[0]\<close> raises IndexError on a clade without children and
  \<open>heights[...]\<close> raises KeyError on a missing key. \<open>calc_row_loop\<close> is the
  \<open>for subclade in clade\<close> loop.
\<close>

fun calc_row :: "clade \<Rightarrow> real clade_dict \<Rightarrow> py_error + real clade_dict"
  and calc_row_loop :: "clade list \<Rightarrow> real clade_dict \<Rightarrow> py_error + real clade_dict" where
  "calc_row (Clade i n b cf col w cs) heights =
     (case calc_row_loop cs heights of
        Inl e \<Rightarrow> Inl e
      | Inr heights' \<Rightarrow>
          (if cs = [] then Inl IndexError
           else (case heights' (oid (hd cs)) of
                   None \<Rightarrow> Inl KeyError
                 | Some a \<Rightarrow>
                     (case heights' (oid (last cs)) of
                        None \<Rightarrow> Inl KeyError
                      | Some b \<Rightarrow> Inr (heights'(i \<mapsto> (a + b) / 2))))))"
| "calc_row_loop [] heights = Inr heights"
| "calc_row_loop (subclade # rest) heights =
     (case (if heights (oid subclade) = None then calc_row subclade heights
            else Inr heights) of
        Inl e \<Rightarrow> Inl e
      | Inr heights' \<Rightarrow> calc_row_loop rest heights')"

text \<open>The rectangular script (trees.py): tips at \<open>maxheight - i\<close>.\<close>

definition get_y_positions :: "tree \<Rightarrow> py_error + real clade_dict" where
  "get_y_positions t =
     (let maxheight = count_terminals t;
          heights = tip_heights (\<lambda>i. real maxheight - real i) (get_terminals t)
      in if clades (root_clade t) \<noteq> [] then calc_row (root_clade t) heights
         else Inr heights)"

text \<open>
  The polar script (circTrees.py): tips at \<open>maxheight * (1 - i / count_terminals)\<close> with
  \<open>maxheight = 2 * pi\<close>. The division is Python 3's true division and raises
  ZeroDivisionError on a zero count.
\<close>

definition get_y_positions_polar :: "tree \<Rightarrow> py_error + real clade_dict" where
  "get_y_positions_polar t =
     (let maxheight = 2 * pi
      in if get_terminals t \<noteq> [] \<and> count_terminals t = 0 then Inl ZeroDivisionError
         else
           (let heights = tip_heights
                            (\<lambda>i. maxheight * (1 - real i / real (count_terminals t)))
                            (get_terminals t)
            in if clades (root_clade t) \<noteq> [] then calc_row (root_clade t) heights
               else Inr heights))"

text \<open>
  \<open>mid h d\<close>: in the dictionary \<open>h\<close> the clade \<open>d\<close> sits at the arithmetic mean of its first
  and its last child. \<open>internal_ids c\<close> are the identities of the clades with children
  at or below \<open>c\<close>.
\<close>

definition mid :: "real clade_dict \<Rightarrow> clade \<Rightarrow> bool" where
  "mid h d = (\<exists>a b. h (oid (hd (clades d))) = Some a \<and> h (oid (last (clades d))) = Some b
                 \<and> h (oid d) = Some ((a + b) / 2))"

definition internal_ids :: "clade \<Rightarrow> nat set" where
  "internal_ids c = oid ` {d \<in> set (find_clades c). clades d \<noteq> []}"

section \<open>Horizontal layout: get_x_positions\<close>

subsection \<open>The tree library's depths and get_path\<close>

text \<open>
  \<open>tree.depths(unit_branch_lengths)\<close> of Bio.Phylo: the root is entered at
  \<open>root.branch_length or 0\<close>, every child at its parent's depth plus \<open>depth_of(child)\<close>,
  which is 1 with unit branch lengths and \<open>child.branch_length or 0\<close> otherwise.
\<close>

definition branch_length_or_0 :: "clade \<Rightarrow> real" where
  "branch_length_or_0 c = (case branch_length c of None \<Rightarrow> 0 | Some v \<Rightarrow> v)"

fun update_depths :: "(clade \<Rightarrow> real) \<Rightarrow> clade \<Rightarrow> real \<Rightarrow> real clade_dict \<Rightarrow> real clade_dict"
  and update_depths_loop ::
    "(clade \<Rightarrow> real) \<Rightarrow> clade list \<Rightarrow> real \<Rightarrow> real clade_dict \<Rightarrow> real clade_dict" where
  "update_depths depth_of (Clade i n b cf col w cs) curr_depth depths =
     update_depths_loop depth_of cs curr_depth (depths(i \<mapsto> curr_depth))"
| "update_depths_loop depth_of [] curr_depth depths = depths"
| "update_depths_loop depth_of (child # rest) curr_depth depths =
     update_depths_loop depth_of rest curr_depth
       (update_depths depth_of child (curr_depth + depth_of child) depths)"

definition depths :: "tree \<Rightarrow> bool \<Rightarrow> real clade_dict" where
  "depths t unit_branch_lengths =
     (let depth_of = (if unit_branch_lengths then (\<lambda>c. 1) else branch_length_or_0)
      in update_depths depth_of (root_clade t) (branch_length_or_0 (root_clade t)) Map.empty)"

text \<open>
  \<open>tree.get_path(target)\<close> for a clade object as target: the clades between the root and
  the target, the root left out and the target last (\<open>path[-2::-1]\<close> of the list that
  \<open>check_in_path\<close> fills from the target upwards), or None when the target is not found.
  \<open>match\<close> is the library's identity test \<open>node is target\<close>.
\<close>

fun check_in_path :: "(clade \<Rightarrow> bool) \<Rightarrow> clade \<Rightarrow> clade list option"
  and check_in_path_loop :: "(clade \<Rightarrow> bool) \<Rightarrow> clade list \<Rightarrow> clade list option" where
  "check_in_path match (Clade i n b cf col w cs) =
     (if match (Clade i n b cf col w cs) then Some [Clade i n b cf col w cs]
      else if cs = [] then None
      else (case check_in_path_loop match cs of
              None \<Rightarrow> None
            | Some path \<Rightarrow> Some (path @ [Clade i n b cf col w cs])))"
| "check_in_path_loop match [] = None"
| "check_in_path_loop match (child # rest) =
     (case check_in_path match child of
        Some path \<Rightarrow> Some path
      | None \<Rightarrow> check_in_path_loop match rest)"

definition get_path :: "tree \<Rightarrow> clade \<Rightarrow> clade list option" where
  "get_path t target =
     (case check_in_path (\<lambda>v. oid v = oid target) (root_clade t) of
        None \<Rightarrow> None
      | Some path \<Rightarrow> Some (rev (butlast path)))"

subsection \<open>The rectangular script\<close>

text \<open>\<open>not max(depths.values())\<close> holds exactly when the largest depth is zero.\<close>

definition get_x_positions :: "tree \<Rightarrow> real clade_dict" where
  "get_x_positions t =
     (let depths0 = depths t False
      in if Max (ran depths0) = 0 then depths t True else depths0)"

subsection \<open>The polar script\<close>

text \<open>
  The loop over the terminals that sets the global \<open>treeDepth\<close>; \<open>len\<close> of a missing
  path (None) raises TypeError.
\<close>

fun tree_depth_loop :: "tree \<Rightarrow> clade list \<Rightarrow> nat \<Rightarrow> py_error + nat" where
  "tree_depth_loop t [] treeDepth = Inr treeDepth"
| "tree_depth_loop t (terminal # rest) treeDepth =
     (case get_path t terminal of
        None \<Rightarrow> Inl (TypeError ''object of type 'NoneType' has no len()'')
      | Some path \<Rightarrow>
          (let candidate = length path
           in tree_depth_loop t rest (if candidate > treeDepth then candidate else treeDepth)))"

text \<open>
  The loop \<open>for clade in depths.keys()\<close>: the keys of \<open>depths\<close> are the clades of the tree,
  entered in preorder.
\<close>

fun terminals_to_tree_depth :: "clade list \<Rightarrow> nat \<Rightarrow> real clade_dict \<Rightarrow> real clade_dict" where
  "terminals_to_tree_depth [] treeDepth dict = dict"
| "terminals_to_tree_depth (c # rest) treeDepth dict =
     terminals_to_tree_depth rest treeDepth
       (if is_terminal c then dict(oid c \<mapsto> real treeDepth) else dict)"

text \<open>
  \<open>get_x_positions(tree, cladogram=True)\<close> of circTrees.py. The global \<open>treeDepth\<close> is
  passed in and returned with the dictionary; only the cladogram branch assigns it.
  \<open>drawMark\<close> calls the function without the second argument, so with \<open>cladogram = True\<close>.
\<close>

definition get_x_positions_polar ::
    "tree \<Rightarrow> bool \<Rightarrow> nat option \<Rightarrow> py_error + (nat option \<times> real clade_dict)" where
  "get_x_positions_polar t cladogram treeDepth0 =
     (if cladogram then
        (case tree_depth_loop t (get_terminals t) 0 of
           Inl e \<Rightarrow> Inl e
         | Inr treeDepth \<Rightarrow>
             Inr (Some treeDepth,
                  terminals_to_tree_depth (find_clades (root_clade t)) treeDepth
                    (depths t True)))
      else
        (let depths0 = depths t False
         in Inr (treeDepth0, if Max (ran depths0) = 0 then depths t True else depths0)))"

text \<open>
  For stating the properties: \<open>clade_depths depth_of start c\<close> lists the clades at or
  below \<open>c\<close> in preorder, each with the sum of \<open>depth_of\<close> along the way down from \<open>c\<close>,
  started at \<open>start\<close>; \<open>levels\<close> pairs every clade of a tree with its number of edges from
  the root.
\<close>

fun clade_depths :: "(clade \<Rightarrow> 'a::plus) \<Rightarrow> 'a \<Rightarrow> clade \<Rightarrow> (clade \<times> 'a) list" where
  "clade_depths depth_of curr_depth (Clade i n b cf col w cs) =
     (Clade i n b cf col w cs, curr_depth)
       # concat (map (\<lambda>child. clade_depths depth_of (curr_depth + depth_of child) child) cs)"

definition levels :: "tree \<Rightarrow> (clade \<times> nat) list" where
  "levels t = clade_depths (\<lambda>c. Suc 0) 0 (root_clade t)"

definition nonneg_lengths :: "tree \<Rightarrow> bool" where
  "nonneg_lengths t = (\<forall>d \<in> set (find_clades (root_clade t)). 0 \<le> branch_length_or_0 d)"

section \<open>Drawing: draw_clade_lines and draw_clade\<close>

text \<open>
  What the drawing code does to the figure is kept as the list of calls it makes, in
  program order: calls on \<open>axes\<close> (\<open>hlines\<close>, \<open>vlines\<close>, \<open>plot\<close>, \<open>text\<close>) and, in the
  rectangular script, the \<open>LineCollection\<close> objects appended to the lists
  \<open>horizontal_linecollections\<close> and \<open>vertical_linecollections\<close>, which \<open>drawMark\<close> adds to
  \<open>axes\<close> after the recursion. Colors, weights and keyword names are strings; the
  keyword arguments of \<open>axes.text\<close> are kept as a list of pairs.
\<close>

datatype draw_op =
    Hlines real real real string real
  | Vlines real real real string
  | HorizontalCollection "(real \<times> real) list" string real
  | VerticalCollection "(real \<times> real) list" string real
  | Plot "real list" "real list" string real
  | Text real real string "(string \<times> string) list"

fun is_text :: "draw_op \<Rightarrow> bool" where
  "is_text (Text x y s kw) = True"
| "is_text op = False"

text \<open>
  \<open>BranchColor.to_hex\<close>: \<open>'#%02x%02x%02x' % (red, green, blue)\<close>. The library keeps each
  channel in 0..255, so two hexadecimal digits are all there is.
\<close>

definition hex_digit :: "nat \<Rightarrow> char" where
  "hex_digit d = ''0123456789abcdef'' ! (d mod 16)"

definition to_hex :: "branch_color \<Rightarrow> string" where
  "to_hex c = CHR ''#'' # concat (map (\<lambda>v. [hex_digit (v div 16), hex_digit v])
                                     [red c, green c, blue c])"

text \<open>
  What \<open>draw_clade\<close> closes over. \<open>format_branch_label\<close> and \<open>get_label_color\<close> are the
  functions \<open>drawMark\<close> builds from its options \<open>branch_labels\<close>, \<open>show_confidence\<close> and
  \<open>label_colors\<close> (with a callable option they are the caller's own function);
  \<open>rc_linewidth\<close> is \<open>plt.rcParams['lines.linewidth']\<close>. A label is a string or None.
\<close>

record draw_env =
  x_posns :: "real clade_dict"
  y_posns :: "real clade_dict"
  label_func :: "clade \<Rightarrow> string option"
  get_label_color :: "string \<Rightarrow> string"
  format_branch_label :: "clade \<Rightarrow> string option"
  mark :: "string list"
  markColor :: string
  markWeight :: string
  rc_linewidth :: real

datatype label_colors_option =
    NoLabelColors
  | LabelColorFun "string \<Rightarrow> string"
  | LabelColorDict "(string \<times> string) list"

text \<open>
  A dictionary given as an option is kept as its list of items. An empty dictionary is
  false in \<open>if label_colors:\<close>, like None.
\<close>

definition make_get_label_color :: "label_colors_option \<Rightarrow> string \<Rightarrow> string" where
  "make_get_label_color label_colors label =
     (case label_colors of
        NoLabelColors \<Rightarrow> ''black''
      | LabelColorFun f \<Rightarrow> f label
      | LabelColorDict items \<Rightarrow>
          (if items = [] then ''black''
           else (case map_of items label of None \<Rightarrow> ''black'' | Some c \<Rightarrow> c)))"

subsection \<open>The rectangular script\<close>

definition draw_clade_lines ::
    "bool \<Rightarrow> string \<Rightarrow> real \<Rightarrow> real \<Rightarrow> real \<Rightarrow> real \<Rightarrow> real \<Rightarrow> string \<Rightarrow> real \<Rightarrow> draw_op list" where
  "draw_clade_lines use_linecollection orientation y_here x_start x_here y_bot y_top color' lw =
     (if \<not> use_linecollection \<and> orientation = ''horizontal'' then
        [Hlines y_here x_start x_here color' lw]
      else if use_linecollection \<and> orientation = ''horizontal'' then
        [HorizontalCollection [(x_start, y_here), (x_here, y_here)] color' lw]
      else if \<not> use_linecollection \<and> orientation = ''vertical'' then
        [Vlines x_here y_bot y_top color']
      else if use_linecollection \<and> orientation = ''vertical'' then
        [VerticalCollection [(x_here, y_bot), (x_here, y_top)] color' lw]
      else [])"

text \<open>
  The taxon label of a clade: nothing for the label None or the class name, the highlight
  color and weight for a label in \<open>mark\<close>, the label color otherwise.
\<close>

definition label_text :: "draw_env \<Rightarrow> clade \<Rightarrow> real \<Rightarrow> real \<Rightarrow> draw_op list" where
  "label_text env clade x_here y_here =
     (case label_func env clade of
        None \<Rightarrow> []
      | Some label \<Rightarrow>
          (if label = ''Clade'' then []
           else if label \<in> set (mark env) then
             [Text x_here y_here (CHR '' '' # label)
                [(''verticalalignment'', ''center''), (''color'', markColor env),
                 (''fontweight'', markWeight env)]]
           else
             [Text x_here y_here (CHR '' '' # label)
                [(''verticalalignment'', ''center''), (''color'', get_label_color env label)]]))"

text \<open>The label above the branch; the empty string is false in \<open>if conf_label:\<close>.\<close>

definition conf_text :: "draw_env \<Rightarrow> clade \<Rightarrow> real \<Rightarrow> real \<Rightarrow> real \<Rightarrow> draw_op list" where
  "conf_text env clade x_start x_here y_here =
     (case format_branch_label env clade of
        None \<Rightarrow> []
      | Some conf_label \<Rightarrow>
          (if conf_label = [] then []
           else [Text (0.5 * (x_start + x_here)) y_here conf_label
                   [(''fontsize'', ''small''), (''horizontalalignment'', ''center'')]]))"

text \<open>
  \<open>draw_clade\<close> of trees.py. The lookups \<open>x_posns[clade]\<close> and \<open>y_posns[...]\<close> raise KeyError
  on a missing key; an exception leaves the function without a result.
  \<open>draw_descendents\<close> is the loop \<open>for child in clade\<close>.
\<close>

fun draw_clade :: "draw_env \<Rightarrow> clade \<Rightarrow> real \<Rightarrow> string \<Rightarrow> real \<Rightarrow> py_error + draw_op list"
  and draw_descendents ::
    "draw_env \<Rightarrow> clade list \<Rightarrow> real \<Rightarrow> string \<Rightarrow> real \<Rightarrow> py_error + draw_op list" where
  "draw_clade env (Clade i n b cf col w cs) x_start color0 lw0 =
     (case x_posns env i of
        None \<Rightarrow> Inl KeyError
      | Some x_here \<Rightarrow>
     (case y_posns env i of
        None \<Rightarrow> Inl KeyError
      | Some y_here \<Rightarrow>
     (let color' = (case col of Some c \<Rightarrow> to_hex c | None \<Rightarrow> color0);
          lw = (case w of Some wd \<Rightarrow> wd * rc_linewidth env | None \<Rightarrow> lw0);
          own = draw_clade_lines True ''horizontal'' y_here x_start x_here 0 0 color' lw
                @ label_text env (Clade i n b cf col w cs) x_here y_here
                @ conf_text env (Clade i n b cf col w cs) x_start x_here y_here
      in if cs = [] then Inr own
         else
           (case y_posns env (oid (hd cs)) of
              None \<Rightarrow> Inl KeyError
            | Some y_top \<Rightarrow>
           (case y_posns env (oid (last cs)) of
              None \<Rightarrow> Inl KeyError
            | Some y_bot \<Rightarrow>
           (case draw_descendents env cs x_here color' lw of
              Inl e \<Rightarrow> Inl e
            | Inr below \<Rightarrow>
                Inr (own
                     @ draw_clade_lines True ''vertical'' 0 0 x_here y_bot y_top color' lw
                     @ below)))))))"
| "draw_descendents env [] x_here color' lw = Inr []"
| "draw_descendents env (child # rest) x_here color' lw =
     (case draw_clade env child x_here color' lw of
        Inl e \<Rightarrow> Inl e
      | Inr first \<Rightarrow>
          (case draw_descendents env rest x_here color' lw of
             Inl e \<Rightarrow> Inl e
           | Inr others \<Rightarrow> Inr (first @ others)))"

subsection \<open>The polar script\<close>

text \<open>\<open>np.linspace(start, stop, num)\<close>: \<open>num\<close> evenly spaced values, both ends included.\<close>

definition linspace :: "real \<Rightarrow> real \<Rightarrow> nat \<Rightarrow> real list" where
  "linspace start stop num =
     map (\<lambda>k. start + real k * ((stop - start) / real (num - 1))) [0..<num]"

text \<open>
  \<open>draw_clade_lines\<close> of circTrees.py keeps the parameter \<open>use_linecollection\<close> and never
  reads it.
\<close>

definition draw_clade_lines_polar ::
    "bool \<Rightarrow> string \<Rightarrow> real \<Rightarrow> real \<Rightarrow> real \<Rightarrow> real \<Rightarrow> real \<Rightarrow> string \<Rightarrow> real \<Rightarrow> nat
       \<Rightarrow> draw_op list" where
  "draw_clade_lines_polar use_linecollection orientation y_here x_start x_here y_bot y_top color'
       lw resolution =
     (if orientation = ''horizontal'' then
        (if y_here = pi / 2 then
           [Plot [y_here + 0.00018, y_here + 0.00018] [x_start + 0.012, x_here + 0.012] color' lw]
         else [Plot [y_here, y_here] [x_start, x_here] color' lw])
      else if orientation = ''vertical'' then
        [Plot (linspace y_bot y_top resolution) (replicate resolution x_here) color' lw]
      else [])"

text \<open>
  \<open>draw_clade\<close> of circTrees.py. The block that draws the taxon labels stands inside a
  string literal there, so it is not executed and has no counterpart here.
\<close>

fun draw_clade_polar ::
    "draw_env \<Rightarrow> clade \<Rightarrow> real \<Rightarrow> string \<Rightarrow> real \<Rightarrow> py_error + draw_op list"
  and draw_descendents_polar ::
    "draw_env \<Rightarrow> clade list \<Rightarrow> real \<Rightarrow> string \<Rightarrow> real \<Rightarrow> py_error + draw_op list" where
  "draw_clade_polar env (Clade i n b cf col w cs) x_start color0 lw0 =
     (case x_posns env i of
        None \<Rightarrow> Inl KeyError
      | Some x_here \<Rightarrow>
     (case y_posns env i of
        None \<Rightarrow> Inl KeyError
      | Some y_here \<Rightarrow>
     (let color' = (case col of Some c \<Rightarrow> to_hex c | None \<Rightarrow> color0);
          lw = (case w of Some wd \<Rightarrow> wd * rc_linewidth env | None \<Rightarrow> lw0);
          own = draw_clade_lines_polar False ''horizontal'' y_here x_start x_here 0 0 color' lw 100
                @ conf_text env (Clade i n b cf col w cs) x_start x_here y_here
      in if cs = [] then Inr own
         else
           (case y_posns env (oid (hd cs)) of
              None \<Rightarrow> Inl KeyError
            | Some y_top \<Rightarrow>
           (case y_posns env (oid (last cs)) of
              None \<Rightarrow> Inl KeyError
            | Some y_bot \<Rightarrow>
           (case draw_descendents_polar env cs x_here color' lw of
              Inl e \<Rightarrow> Inl e
            | Inr below \<Rightarrow>
                Inr (own
                     @ draw_clade_lines_polar False ''vertical'' 0 0 x_here y_bot y_top color' lw 100
                     @ below)))))))"
| "draw_descendents_polar env [] x_here color' lw = Inr []"
| "draw_descendents_polar env (child # rest) x_here color' lw =
     (case draw_clade_polar env child x_here color' lw of
        Inl e \<Rightarrow> Inl e
      | Inr first \<Rightarrow>
          (case draw_descendents_polar env rest x_here color' lw of
             Inl e \<Rightarrow> Inl e
           | Inr others \<Rightarrow> Inr (first @ others)))"

section \<open>drawMark\<close>

subsection \<open>The plotting library and the pyplot options\<close>

text \<open>
  What the scripts see of their surroundings: whether \<open>matplotlib.pyplot\<close> and \<open>pylab\<close>
  can be imported, which function names \<open>getattr(plt, name)\<close> finds,
  \<open>plt.rcParams['lines.linewidth']\<close>, and how Python's \<open>str\<close> writes an integer and a
  float.
\<close>

record plt_env =
  pyplot_importable :: bool
  pylab_importable :: bool
  plt_functions :: "string list"
  lines_linewidth :: real
  py_str_int :: "int \<Rightarrow> string"
  py_str_float :: "real \<Rightarrow> string"

text \<open>
  The names bound at module level in each script (its imports, its two functions and
  \<open>toMark\<close>). A name used in a function body that is neither local nor one of these nor
  a builtin raises NameError when it is evaluated.
\<close>

definition trees_py_globals :: "string list" where
  "trees_py_globals = [''Phylo'', ''plt'', ''pylab'', ''drawMark'', ''drawTree'', ''toMark'']"

definition circTrees_py_globals :: "string list" where
  "circTrees_py_globals =
     [''Phylo'', ''np'', ''plt'', ''pylab'', ''drawMark'', ''drawTree'', ''toMark'']"

text \<open>
  The \<open>try\<close> block at the head of \<open>drawMark\<close>. The \<open>raise\<close> statement first evaluates the
  name \<open>MissingPythonDependencyError\<close>, which is no builtin.
\<close>

definition import_plt :: "string list \<Rightarrow> plt_env \<Rightarrow> py_error + string" where
  "import_plt globals P =
     (if pyplot_importable P then Inr ''matplotlib.pyplot''
      else if pylab_importable P then Inr ''pylab''
      else if ''MissingPythonDependencyError'' \<in> set globals then
        Inl (MissingPythonDependencyError
               ''Install matplotlib or pylab if you want to use draw.'')
      else Inl (NameError ''MissingPythonDependencyError''))"

text \<open>
  Iterating a value, as the list comprehension \<open>[i for i in value]\<close> does: None stands for
  the TypeError of a value that is not iterable.
\<close>

fun py_iter :: "pyval \<Rightarrow> pyval list option" where
  "py_iter (PStr s) = Some (map (\<lambda>c. PStr [c]) s)"
| "py_iter (PTuple xs) = Some xs"
| "py_iter (PList xs) = Some xs"
| "py_iter (PDict kvs) = Some (map (\<lambda>kv. PStr (fst kv)) kvs)"
| "py_iter v = None"

text \<open>
  \<open>dict(v)\<close> followed by \<open>**\<close>: a dictionary as it is, otherwise a sequence of
  two-element sequences, whose first elements must be strings to serve as keywords.
\<close>

fun py_dict_items :: "pyval list \<Rightarrow> py_error + (string \<times> pyval) list" where
  "py_dict_items [] = Inr []"
| "py_dict_items (item # rest) =
     (case py_iter item of
        None \<Rightarrow> Inl (TypeError ''cannot convert dictionary update sequence element to a sequence'')
      | Some [PStr k, v] \<Rightarrow>
          (case py_dict_items rest of Inl e \<Rightarrow> Inl e | Inr kvs \<Rightarrow> Inr ((k, v) # kvs))
      | Some [k, v] \<Rightarrow> Inl (TypeError ''keywords must be strings'')
      | Some other \<Rightarrow>
          Inl (ValueError ''dictionary update sequence element has length %s; 2 is required''
                 [PInt (int (length other))]))"

definition py_dict :: "pyval \<Rightarrow> py_error + (string \<times> pyval) list" where
  "py_dict v =
     (case v of
        PDict kvs \<Rightarrow> Inr kvs
      | other \<Rightarrow>
          (case py_iter other of
             None \<Rightarrow> Inl (TypeError ''object is not iterable'')
           | Some items \<Rightarrow> py_dict_items items))"

text \<open>A call \<open>getattr(plt, key)(*args, **kwargs)\<close>; the function must exist in \<open>plt\<close>.\<close>

datatype plt_call = PltCall string "pyval list" "(string \<times> pyval) list"

definition call_plt ::
    "plt_env \<Rightarrow> string \<Rightarrow> pyval list \<Rightarrow> (string \<times> pyval) list \<Rightarrow> py_error + plt_call" where
  "call_plt P key args kwargs =
     (if key \<in> set (plt_functions P) then Inr (PltCall key args kwargs)
      else Inl (AttributeError key))"

definition kwarg_format :: string where
  "kwarg_format =
     ''Keyword argument \"%s=%s\" is not in the format pyplot_option_name=(tuple), pyplot_option_name=(tuple, dict), or pyplot_option_name=(dict) ''"

text \<open>
  One round of the loop \<open>for key, value in kwargs.items()\<close>. In a call Python evaluates
  \<open>getattr(plt, str(key))\<close> before the arguments \<open>value[1]\<close> and \<open>dict(...)\<close>.
\<close>

definition process_kwarg :: "plt_env \<Rightarrow> string \<times> pyval \<Rightarrow> py_error + plt_call" where
  "process_kwarg P kv =
     (case kv of (key, value) \<Rightarrow>
        (case py_iter value of
           None \<Rightarrow> Inl (ValueError kwarg_format [PStr key, value])
         | Some items \<Rightarrow>
             (case value of
                PDict kvs \<Rightarrow> call_plt P key [] kvs
              | other \<Rightarrow>
                  (case items of
                     [] \<Rightarrow> Inl IndexError
                   | PTuple args # after \<Rightarrow>
                       (if key \<notin> set (plt_functions P) then Inl (AttributeError key)
                        else
                          (case after of
                             [] \<Rightarrow> Inl IndexError
                           | second # others \<Rightarrow>
                               (case py_dict second of
                                  Inl e \<Rightarrow> Inl e
                                | Inr kws \<Rightarrow> call_plt P key args kws)))
                   | first # after \<Rightarrow> call_plt P key items []))))"

fun process_kwargs :: "plt_env \<Rightarrow> (string \<times> pyval) list \<Rightarrow> py_error + plt_call list" where
  "process_kwargs P [] = Inr []"
| "process_kwargs P (kv # rest) =
     (case process_kwarg P kv of
        Inl e \<Rightarrow> Inl e
      | Inr c \<Rightarrow>
          (case process_kwargs P rest of Inl e \<Rightarrow> Inl e | Inr cs \<Rightarrow> Inr (c # cs)))"

subsection \<open>Options for branch labels\<close>

text \<open>
  \<open>conf2str\<close>: how Python writes an integer and a float is left to the two parameters;
  \<open>int(conf)\<close> truncates towards zero.
\<close>

definition py_int :: "real \<Rightarrow> int" where
  "py_int r = (if 0 \<le> r then \<lfloor>r\<rfloor> else \<lceil>r\<rceil>)"

definition conf2str :: "(int \<Rightarrow> string) \<Rightarrow> (real \<Rightarrow> string) \<Rightarrow> real \<Rightarrow> string" where
  "conf2str str_int str_float conf =
     (if real_of_int (py_int conf) = conf then str_int (py_int conf) else str_float conf)"

datatype branch_labels_option =
    NoBranchLabels
  | BranchLabelDict "(nat \<times> string) list"
  | BranchLabelFun "clade \<Rightarrow> string option"
  | BranchLabelOther pyval

text \<open>Python's truth value of a value that is neither a dictionary nor a function.\<close>

fun py_truthy :: "pyval \<Rightarrow> bool" where
  "py_truthy PNone = False"
| "py_truthy (PBool b) = b"
| "py_truthy (PInt i) = (i \<noteq> 0)"
| "py_truthy (PFloat r) = (r \<noteq> 0)"
| "py_truthy (PStr s) = (s \<noteq> [])"
| "py_truthy (PTuple xs) = (xs \<noteq> [])"
| "py_truthy (PList xs) = (xs \<noteq> [])"
| "py_truthy (PDict kvs) = (kvs \<noteq> [])"

text \<open>
  The choice of \<open>format_branch_label\<close>. The clades of a tree read from a Newick file have
  no attribute \<open>confidences\<close>, so the branch for it does not arise. An empty dictionary
  and any other false value take the first branch of \<open>if not branch_labels\<close>; the
  dictionary is keyed by clade objects.
\<close>

definition make_format_branch_label ::
    "(int \<Rightarrow> string) \<Rightarrow> (real \<Rightarrow> string) \<Rightarrow> branch_labels_option \<Rightarrow> bool
       \<Rightarrow> py_error + (clade \<Rightarrow> string option)" where
  "make_format_branch_label str_int str_float branch_labels show_confidence =
     (let by_confidence =
            (if show_confidence then
               (\<lambda>clade. case confidence clade of
                           None \<Rightarrow> None
                         | Some conf \<Rightarrow> Some (conf2str str_int str_float conf))
             else (\<lambda>clade. None))
      in case branch_labels of
           NoBranchLabels \<Rightarrow> Inr by_confidence
         | BranchLabelDict items \<Rightarrow>
             (if items = [] then Inr by_confidence
              else Inr (\<lambda>clade. map_of items (oid clade)))
         | BranchLabelFun f \<Rightarrow> Inr f
         | BranchLabelOther v \<Rightarrow>
             (if \<not> py_truthy v then Inr by_confidence
              else Inl (TypeError
                          ''branch_labels must be either a dict or a callable (function)'')))"

subsection \<open>The function\<close>

datatype axes_option = AxesNone | AxesInstance | AxesOther pyval

record options =
  opt_label_func :: "clade \<Rightarrow> string option"
  opt_do_show :: bool
  opt_show_confidence :: bool
  opt_axes :: axes_option
  opt_branch_labels :: branch_labels_option
  opt_label_colors :: label_colors_option
  opt_mark :: "string list"
  opt_markColor :: string
  opt_markWeight :: string
  opt_kwargs :: "(string \<times> pyval) list"

text \<open>
  The figure a call leaves behind: the drawing calls of \<open>draw_clade\<close>, the pyplot calls made
  for the keyword arguments, and whether \<open>plt.show()\<close> was called.
\<close>

record figure =
  drawn :: "draw_op list"
  pyplot_calls :: "plt_call list"
  shown :: bool

definition make_env :: "plt_env \<Rightarrow> options \<Rightarrow> (clade \<Rightarrow> string option) \<Rightarrow> real clade_dict
    \<Rightarrow> real clade_dict \<Rightarrow> draw_env" where
  "make_env P opts fbl xs ys =
     \<lparr> x_posns = xs, y_posns = ys, label_func = opt_label_func opts,
       get_label_color = make_get_label_color (opt_label_colors opts),
       format_branch_label = fbl, mark = opt_mark opts, markColor = opt_markColor opts,
       markWeight = opt_markWeight opts, rc_linewidth = lines_linewidth P \<rparr>"

text \<open>
  \<open>drawMark\<close> of trees.py, in the order of the source: the import, the branch-label option,
  the layout, the check of \<open>axes\<close>, the drawing, the keyword arguments, \<open>plt.show()\<close>. The
  calls that set the title, the axis labels and the axis limits are left out; they draw
  no clade and no label.
\<close>

definition drawMark :: "plt_env \<Rightarrow> tree \<Rightarrow> options \<Rightarrow> py_error + figure" where
  "drawMark P t opts =
     (case import_plt trees_py_globals P of
        Inl e \<Rightarrow> Inl e
      | Inr plt \<Rightarrow>
     (case make_format_branch_label (py_str_int P) (py_str_float P)
             (opt_branch_labels opts) (opt_show_confidence opts) of
        Inl e \<Rightarrow> Inl e
      | Inr fbl \<Rightarrow>
     (case get_y_positions t of
        Inl e \<Rightarrow> Inl e
      | Inr ys \<Rightarrow>
     (case opt_axes opts of
        AxesOther v \<Rightarrow> Inl (ValueError ''Invalid argument for axes: %s'' [v])
      | ok \<Rightarrow>
     (case draw_clade (make_env P opts fbl (get_x_positions t) ys) (root_clade t) 0 ''k''
             (lines_linewidth P) of
        Inl e \<Rightarrow> Inl e
      | Inr ops \<Rightarrow>
     (case process_kwargs P (opt_kwargs opts) of
        Inl e \<Rightarrow> Inl e
      | Inr calls \<Rightarrow>
          Inr \<lparr> drawn = ops, pyplot_calls = calls, shown = opt_do_show opts \<rparr>))))))"

text \<open>
  \<open>drawMark\<close> of circTrees.py. The global \<open>treeDepth\<close> starts unset; \<open>axes.set_rmax\<close> needs
  it and raises NameError otherwise.
\<close>

definition drawMark_polar :: "plt_env \<Rightarrow> tree \<Rightarrow> options \<Rightarrow> py_error + figure" where
  "drawMark_polar P t opts =
     (case import_plt circTrees_py_globals P of
        Inl e \<Rightarrow> Inl e
      | Inr plt \<Rightarrow>
     (case make_format_branch_label (py_str_int P) (py_str_float P)
             (opt_branch_labels opts) (opt_show_confidence opts) of
        Inl e \<Rightarrow> Inl e
      | Inr fbl \<Rightarrow>
     (case get_x_positions_polar t True None of
        Inl e \<Rightarrow> Inl e
      | Inr (treeDepth, xs) \<Rightarrow>
     (case get_y_positions_polar t of
        Inl e \<Rightarrow> Inl e
      | Inr ys \<Rightarrow>
     (case opt_axes opts of
        AxesOther v \<Rightarrow> Inl (ValueError ''Invalid argument for axes: %s'' [v])
      | ok \<Rightarrow>
     (case draw_clade_polar (make_env P opts fbl xs ys) (root_clade t) 0 ''k''
             (lines_linewidth P) of
        Inl e \<Rightarrow> Inl e
      | Inr ops \<Rightarrow>
     (case treeDepth of
        None \<Rightarrow> Inl (NameError ''treeDepth'')
      | Some td \<Rightarrow>
     (case process_kwargs P (opt_kwargs opts) of
        Inl e \<Rightarrow> Inl e
      | Inr calls \<Rightarrow>
          Inr \<lparr> drawn = ops, pyplot_calls = calls, shown = opt_do_show opts \<rparr>))))))))"

section \<open>drawTree\<close>

subsection \<open>Tree-library operations used by drawTree\<close>







subsection \<open>The two functions\<close>

text \<open>
  The options with which \<open>drawTree\<close> calls \<open>drawMark\<close>: the clade's name as label, no
  \<open>plt.show()\<close>, the given marks, everything else at its default.
\<close>

definition default_options :: "string list \<Rightarrow> options" where
  "default_options marks =
     \<lparr> opt_label_func = name, opt_do_show = False, opt_show_confidence = True,
       opt_axes = AxesNone, opt_branch_labels = NoBranchLabels,
       opt_label_colors = NoLabelColors, opt_mark = marks, opt_markColor = ''r'',
       opt_markWeight = ''bold'', opt_kwargs = [] \<rparr>"




definition circTrees_toMark :: "string list" where
  "circTrees_toMark =
     [''XP_021076601.1_H(+)/Cl(-)_exchange_transporter_7_isoform_X3_Mus_pahari'',
      ''XP_012063553.1_PREDICTED:_H(+)/Cl(-)_exchange_transporter_7_Atta_cephalotes'']"


section \<open>Inherited colors\<close>

text \<open>
  For stating how colors are handed down: \<open>edge_colors color0 c\<close> lists the clades at or
  below \<open>c\<close> in preorder, each with the color that reaches it when \<open>c\<close> is entered with
  \<open>color0\<close> (its own color, if it has one, else the color of its parent).
  \<open>plain_descendants c\<close> are the descendants of \<open>c\<close> that carry no color and have no
  colored clade between \<open>c\<close> and themselves.
\<close>

fun edge_colors :: "string \<Rightarrow> clade \<Rightarrow> (clade \<times> string) list" where
  "edge_colors color0 (Clade i n b cf col w cs) =
     (Clade i n b cf col w cs, (case col of Some c \<Rightarrow> to_hex c | None \<Rightarrow> color0))
       # concat (map (edge_colors (case col of Some c \<Rightarrow> to_hex c | None \<Rightarrow> color0)) cs)"


text \<open>
  \<open>draws_clade_in env d k ops\<close>: the calls \<open>ops\<close> contain what \<open>draw_clade\<close> issues for the
  clade \<open>d\<close> itself when the color \<open>k\<close> reaches it: its horizontal line in the color \<open>k\<close>,
  ending at the position of \<open>d\<close>, and its taxon label and branch label.
  \<open>draws_clade_in_polar\<close> is the same for the polar script, which draws no taxon label.
\<close>

definition draws_clade_in :: "draw_env \<Rightarrow> clade \<Rightarrow> string \<Rightarrow> draw_op list \<Rightarrow> bool" where
  "draws_clade_in env d k ops =
     (\<exists>x_start lw x y. x_posns env (oid d) = Some x \<and> y_posns env (oid d) = Some y
        \<and> set (draw_clade_lines True ''horizontal'' y x_start x 0 0 k lw
                @ label_text env d x y @ conf_text env d x_start x y) \<subseteq> set ops)"


section \<open>A small tree for concrete evaluation\<close>

text \<open>The tree \<open>((A:1,B:1):1,C:1);\<close> as the Newick reader builds it.\<close>

definition leaf :: "nat \<Rightarrow> string \<Rightarrow> real \<Rightarrow> clade" where
  "leaf i n b = Clade i (Some n) (Some b) None None None []"

definition tree_abc :: tree where
  "tree_abc =
     Tree (Clade 0 None None None None None
             [Clade 1 None (Some 1) None None None [leaf 2 ''A'' 1, leaf 3 ''B'' 1],
              leaf 4 ''C'' 1])
          None"

text \<open>The tree \<open>(A:-1,B:2);\<close>, with a negative branch length.\<close>

definition tree_neg :: tree where
  "tree_neg = Tree (Clade 0 None None None None None [leaf 1 ''A'' (- 1), leaf 2 ''B'' 2]) None"

text \<open>Surroundings in which both plotting libraries import.\<close>

definition plt_ok :: plt_env where
  "plt_ok = \<lparr> pyplot_importable = True, pylab_importable = True,
              plt_functions = [''title'', ''xlabel'', ''ylabel'', ''xticks'', ''yticks'', ''axis''],
              lines_linewidth = 1, py_str_int = (\<lambda>i. ''int''),
              py_str_float = (\<lambda>r. ''float'') \<rparr>"



section \<open>Properties of the vertical layout\<close>

lemma find_clades_self: "c \<in> set (find_clades c)"
  by (cases c) simp

lemma find_clades_child:
  "d \<in> set (find_clades c) \<Longrightarrow> e \<in> set (clades d) \<Longrightarrow> e \<in> set (find_clades c)"
proof (induction c rule: find_clades.induct)
  case (1 i n b cf col w cs)
  show ?case
  proof (cases "d = Clade i n b cf col w cs")
    case True
    with 1(3) have "e \<in> set cs" by simp
    then show ?thesis using find_clades_self[of e] by auto
  next
    case False
    with 1(2) obtain c' where c': "c' \<in> set cs" "d \<in> set (find_clades c')" by auto
    from 1(1)[OF c' 1(3)] c'(1) show ?thesis by auto
  qed
qed

lemma oid_inj:
  "distinct (map oid xs) \<Longrightarrow> d \<in> set xs \<Longrightarrow> e \<in> set xs \<Longrightarrow> oid d = oid e \<Longrightarrow> d = e"
  by (auto simp: distinct_map dest: inj_onD)

lemma mid_cong:
  "mid h d \<Longrightarrow> h' (oid d) = h (oid d) \<Longrightarrow> h' (oid (hd (clades d))) = h (oid (hd (clades d)))
   \<Longrightarrow> h' (oid (last (clades d))) = h (oid (last (clades d))) \<Longrightarrow> mid h' d"
  by (auto simp: mid_def)

lemma calc_row_correct:
  "distinct (map oid (find_clades c)) \<Longrightarrow> clades c \<noteq> [] \<Longrightarrow>
   (\<forall>d \<in> set (find_clades c). (h (oid d) \<noteq> None) = (clades d = [])) \<Longrightarrow>
   \<exists>h'. calc_row c h = Inr h' \<and> (\<forall>k. k \<notin> internal_ids c \<longrightarrow> h' k = h k)
      \<and> (\<forall>d \<in> set (find_clades c). clades d \<noteq> [] \<longrightarrow> mid h' d)"
 and calc_row_loop_correct:
  "distinct (map oid (concat (map find_clades cs))) \<Longrightarrow>
   (\<forall>d \<in> set (concat (map find_clades cs)). (h (oid d) \<noteq> None) = (clades d = [])) \<Longrightarrow>
   \<exists>h'. calc_row_loop cs h = Inr h' \<and> (\<forall>k. k \<notin> (\<Union>c \<in> set cs. internal_ids c) \<longrightarrow> h' k = h k)
      \<and> (\<forall>d \<in> set (concat (map find_clades cs)). clades d \<noteq> [] \<longrightarrow> mid h' d)"
proof (induction c h and cs h rule: calc_row_calc_row_loop.induct)
  case (1 i n b cf col w cs heights)
  let ?c = "Clade i n b cf col w cs"
  let ?subs = "concat (map find_clades cs)"
  from "1.prems"(1) have dist: "distinct (map oid ?subs)" and inot: "i \<notin> oid ` set ?subs"
    by auto
  from "1.prems"(3) have pre: "\<forall>d\<in>set ?subs. (heights (oid d) \<noteq> None) = (clades d = [])"
    by simp
  from "1.IH"[OF dist pre] obtain h1 where h1: "calc_row_loop cs heights = Inr h1"
    and frame1: "\<forall>k. k \<notin> (\<Union>c \<in> set cs. internal_ids c) \<longrightarrow> h1 k = heights k"
    and mid1: "\<forall>d \<in> set ?subs. clades d \<noteq> [] \<longrightarrow> mid h1 d"
    by blast
  have cs: "cs \<noteq> []" using "1.prems"(2) by simp
  have sub_int: "(\<Union>c \<in> set cs. internal_ids c) \<subseteq> oid ` set ?subs"
    by (auto simp: internal_ids_def)
  have def1: "h1 (oid d) \<noteq> None" if d: "d \<in> set ?subs" for d
  proof (cases "clades d = []")
    case True
    have "oid d \<notin> (\<Union>c \<in> set cs. internal_ids c)"
    proof
      assume "oid d \<in> (\<Union>c \<in> set cs. internal_ids c)"
      then obtain e where e: "e \<in> set ?subs" "clades e \<noteq> []" "oid e = oid d"
        by (force simp: internal_ids_def)
      with oid_inj[OF dist d e(1)] True show False by auto
    qed
    with frame1 pre d True show ?thesis by auto
  next
    case False
    with mid1 d show ?thesis by (auto simp: mid_def)
  qed
  have hd_in: "hd cs \<in> set ?subs" and last_in: "last cs \<in> set ?subs"
    using cs find_clades_self[of "hd cs"] find_clades_self[of "last cs"] by auto
  from def1[OF hd_in] def1[OF last_in] obtain ya yb
    where a: "h1 (oid (hd cs)) = Some ya" and b: "h1 (oid (last cs)) = Some yb" by auto
  let ?h' = "h1(i \<mapsto> (ya + yb) / 2)"
  have res: "calc_row ?c heights = Inr ?h'" using h1 cs a b by simp
  have i_int: "i \<in> internal_ids ?c" using cs by (auto simp: internal_ids_def intro!: image_eqI[where x="?c"])
  have int_sub: "(\<Union>c \<in> set cs. internal_ids c) \<subseteq> internal_ids ?c"
    by (auto simp: internal_ids_def)
  have frame: "\<forall>k. k \<notin> internal_ids ?c \<longrightarrow> ?h' k = heights k"
  proof (intro allI impI)
    fix k assume "k \<notin> internal_ids ?c"
    then have "k \<noteq> i" "k \<notin> (\<Union>c \<in> set cs. internal_ids c)" using i_int int_sub by auto
    then show "?h' k = heights k" using frame1 by simp
  qed
  have midc: "mid ?h' ?c"
    using a b inot hd_in last_in by (auto simp: mid_def)
  have mids: "mid ?h' d" if d: "d \<in> set ?subs" "clades d \<noteq> []" for d
  proof -
    obtain c' where c': "c' \<in> set cs" "d \<in> set (find_clades c')" using d(1) by auto
    have "hd (clades d) \<in> set (find_clades c')" "last (clades d) \<in> set (find_clades c')"
      using find_clades_child[OF c'(2)] d(2) by auto
    with c'(1) have "hd (clades d) \<in> set ?subs" "last (clades d) \<in> set ?subs" by auto
    with inot d(1) have "oid (hd (clades d)) \<noteq> i" "oid (last (clades d)) \<noteq> i" "oid d \<noteq> i"
      by auto
    moreover from mid1 d have "mid h1 d" by blast
    ultimately show ?thesis by (auto intro: mid_cong[of h1 d])
  qed
  show ?case using res frame midc mids by auto
next
  case (2 heights)
  then show ?case by simp
next
  case (3 subclade rest heights)
  let ?A = "find_clades subclade"
  let ?B = "concat (map find_clades rest)"
  from "3.prems"(1) have dA: "distinct (map oid ?A)" and dB: "distinct (map oid ?B)"
    and disj: "oid ` set ?A \<inter> oid ` set ?B = {}" by auto
  from "3.prems"(2) have preA: "\<forall>d\<in>set ?A. (heights (oid d) \<noteq> None) = (clades d = [])"
    and preB: "\<forall>d\<in>set ?B. (heights (oid d) \<noteq> None) = (clades d = [])" by auto
  have intA: "internal_ids subclade \<subseteq> oid ` set ?A" by (auto simp: internal_ids_def)
  have intB: "(\<Union>c \<in> set rest. internal_ids c) \<subseteq> oid ` set ?B" by (auto simp: internal_ids_def)
  obtain h1 where h1: "(if heights (oid subclade) = None then calc_row subclade heights
            else Inr heights) = Inr h1"
    and frame1: "\<forall>k. k \<notin> internal_ids subclade \<longrightarrow> h1 k = heights k"
    and mid1: "\<forall>d \<in> set ?A. clades d \<noteq> [] \<longrightarrow> mid h1 d"
  proof (cases "heights (oid subclade) = None")
    case True
    with preA find_clades_self[of subclade] have ne: "clades subclade \<noteq> []" by auto
    from "3.IH"(1)[OF True dA ne preA] True that show ?thesis by auto
  next
    case False
    with preA find_clades_self[of subclade] have "clades subclade = []" by auto
    then have "find_clades subclade = [subclade]" by (cases subclade) auto
    with False \<open>clades subclade = []\<close> that[of heights] show ?thesis by auto
  qed
  have preB1: "\<forall>d\<in>set ?B. (h1 (oid d) \<noteq> None) = (clades d = [])"
    using preB frame1 intA disj by (metis (no_types, lifting) disjoint_iff image_eqI subsetD)
  have "\<exists>h2. calc_row_loop rest h1 = Inr h2 \<and> (\<forall>k. k \<notin> (\<Union>c \<in> set rest. internal_ids c) \<longrightarrow> h2 k = h1 k)
      \<and> (\<forall>d \<in> set ?B. clades d \<noteq> [] \<longrightarrow> mid h2 d)"
  proof (cases "heights (oid subclade) = None")
    case True
    with h1 have e: "calc_row subclade heights = Inr h1" by simp
    from "3.IH"(2)[OF _ dB preB1] True e show ?thesis by auto
  next
    case False
    with h1 have e: "Inr heights = (Inr h1 :: py_error + real clade_dict)" by simp
    from "3.IH"(2)[OF _ dB preB1] False e show ?thesis by auto
  qed
  then obtain h2 where h2: "calc_row_loop rest h1 = Inr h2"
    and frame2: "\<forall>k. k \<notin> (\<Union>c \<in> set rest. internal_ids c) \<longrightarrow> h2 k = h1 k"
    and mid2: "\<forall>d \<in> set ?B. clades d \<noteq> [] \<longrightarrow> mid h2 d" by blast
  have res: "calc_row_loop (subclade # rest) heights = Inr h2" using h1 h2 by simp
  have frame: "\<forall>k. k \<notin> (\<Union>c \<in> set (subclade # rest). internal_ids c) \<longrightarrow> h2 k = heights k"
    using frame1 frame2 by auto
  have keepA: "h2 (oid e) = h1 (oid e)" if "e \<in> set ?A" for e
    using that frame2 intB disj by (metis (no_types, lifting) disjoint_iff image_eqI subsetD)
  have midA: "mid h2 d" if d: "d \<in> set ?A" "clades d \<noteq> []" for d
  proof -
    have "hd (clades d) \<in> set ?A" "last (clades d) \<in> set ?A"
      using find_clades_child[OF d(1)] d(2) by auto
    moreover from mid1 d have "mid h1 d" by blast
    ultimately show ?thesis using keepA d(1) by (auto intro: mid_cong[of h1 d])
  qed
  show ?case using res frame midA mid2 by auto
qed

definition tip_step :: "(nat \<Rightarrow> real) \<Rightarrow> nat \<times> clade \<Rightarrow> real clade_dict \<Rightarrow> real clade_dict" where
  "tip_step f = (tip_entry f)"

lemma tip_entry_apply: "tip_entry f (i, tip) heights = heights(oid tip \<mapsto> f i)"
  by (simp add: tip_entry_def)

lemma fold_tips_other:
  "k \<notin> oid ` set ts \<Longrightarrow>
   fold (tip_entry f) (enumerate s ts) h0 k = h0 k"
  by (induction ts arbitrary: s h0) (auto simp: tip_entry_apply)

lemma fold_tips_nth:
  "distinct (map oid ts) \<Longrightarrow> j < length ts \<Longrightarrow>
   fold (tip_entry f) (enumerate s ts) h0 (oid (ts ! j))
     = Some (f (s + j))"
proof (induction ts arbitrary: s h0 j)
  case Nil
  then show ?case by simp
next
  case (Cons t ts)
  show ?case
  proof (cases j)
    case 0
    with Cons.prems have "oid t \<notin> oid ` set ts" by simp
    from fold_tips_other[OF this, of f "Suc s" "tip_entry f (s, t) h0"] 0 show ?thesis
      by (simp add: tip_entry_apply)
  next
    case (Suc j')
    with Cons.prems Cons.IH[of j' "Suc s"] show ?thesis by simp
  qed
qed

lemma fold_tips_dom:
  "dom (fold (tip_entry f) (enumerate s ts) h0)
     = dom h0 \<union> oid ` set ts"
  by (induction ts arbitrary: s h0) (auto simp: tip_entry_apply)

lemma tip_heights_nth:
  assumes "distinct (map oid tips)" "j < length tips"
  shows "tip_heights f tips (oid (tips ! j)) = Some (f (length tips - Suc j))"
proof -
  have "rev tips ! (length tips - Suc j) = tips ! j"
    using assms(2) by (simp add: rev_nth)
  moreover have "distinct (map oid (rev tips))" using assms(1) by (simp add: rev_map[symmetric])
  moreover have "length tips - Suc j < length (rev tips)" using assms(2) by simp
  ultimately show ?thesis
    unfolding tip_heights_def using fold_tips_nth[of "rev tips" "length tips - Suc j" f 0 Map.empty]
    by simp
qed

lemma tip_heights_dom: "dom (tip_heights f tips) = oid ` set tips"
  unfolding tip_heights_def by (simp add: fold_tips_dom)

lemma terminals_distinct:
  "wf_tree t \<Longrightarrow> distinct (map oid (get_terminals t))"
  unfolding wf_tree_def get_terminals_def by (simp add: distinct_map_filter)

lemma tip_heights_pre:
  assumes "wf_tree t"
  shows "\<forall>d \<in> set (find_clades (root_clade t)).
           (tip_heights f (get_terminals t) (oid d) \<noteq> None) = (clades d = [])"
proof
  fix d assume d: "d \<in> set (find_clades (root_clade t))"
  have dist: "distinct (map oid (find_clades (root_clade t)))" using assms by (simp add: wf_tree_def)
  show "(tip_heights f (get_terminals t) (oid d) \<noteq> None) = (clades d = [])"
  proof
    assume "tip_heights f (get_terminals t) (oid d) \<noteq> None"
    then have "oid d \<in> oid ` set (get_terminals t)" using tip_heights_dom[of f "get_terminals t"] by blast
    then obtain e where e: "e \<in> set (find_clades (root_clade t))" "is_terminal e" "oid e = oid d"
      by (auto simp: get_terminals_def)
    with oid_inj[OF dist d e(1)] show "clades d = []" by (simp add: is_terminal_def)
  next
    assume "clades d = []"
    with d have "d \<in> set (get_terminals t)" by (simp add: get_terminals_def is_terminal_def)
    then have "oid d \<in> dom (tip_heights f (get_terminals t))" by (simp add: tip_heights_dom)
    then show "tip_heights f (get_terminals t) (oid d) \<noteq> None" by blast
  qed
qed

text \<open>The layout both scripts share, for any placement of the tips.\<close>

lemma layout_correct:
  fixes f :: "nat \<Rightarrow> real"
  assumes wf: "wf_tree t"
  defines "h0 \<equiv> tip_heights f (get_terminals t)"
  defines "res \<equiv> (if clades (root_clade t) \<noteq> [] then calc_row (root_clade t) h0 else Inr h0)"
  shows "\<exists>h. res = Inr h
           \<and> (\<forall>d \<in> set (find_clades (root_clade t)). clades d \<noteq> [] \<longrightarrow> mid h d)
           \<and> (\<forall>d \<in> set (get_terminals t). h (oid d) = h0 (oid d))
           \<and> (\<forall>d \<in> set (find_clades (root_clade t)). h (oid d) \<noteq> None)"
proof -
  let ?r = "root_clade t"
  have dist: "distinct (map oid (find_clades ?r))" using wf by (simp add: wf_tree_def)
  have pre: "\<forall>d \<in> set (find_clades ?r). (h0 (oid d) \<noteq> None) = (clades d = [])"
    unfolding h0_def by (rule tip_heights_pre[OF wf])
  show ?thesis
  proof (cases "clades ?r = []")
    case True
    then have "find_clades ?r = [?r]" by (cases ?r) auto
    with True pre show ?thesis by (auto simp: res_def get_terminals_def)
  next
    case False
    from calc_row_correct[OF dist False pre] obtain h where h: "calc_row ?r h0 = Inr h"
      and frame: "\<forall>k. k \<notin> internal_ids ?r \<longrightarrow> h k = h0 k"
      and mids: "\<forall>d \<in> set (find_clades ?r). clades d \<noteq> [] \<longrightarrow> mid h d" by blast
    have tips: "h (oid d) = h0 (oid d)" if "d \<in> set (get_terminals t)" for d
    proof -
      from that have d: "d \<in> set (find_clades ?r)" "clades d = []"
        by (auto simp: get_terminals_def is_terminal_def)
      have "oid d \<notin> internal_ids ?r"
      proof
        assume "oid d \<in> internal_ids ?r"
        then obtain e where e: "e \<in> set (find_clades ?r)" "clades e \<noteq> []" "oid e = oid d"
          by (force simp: internal_ids_def)
        with oid_inj[OF dist d(1) e(1)] d(2) show False by auto
      qed
      with frame show ?thesis by simp
    qed
    have defd: "h (oid d) \<noteq> None" if d: "d \<in> set (find_clades ?r)" for d
    proof (cases "clades d = []")
      case True
      with d have "d \<in> set (get_terminals t)" by (simp add: get_terminals_def is_terminal_def)
      with tips pre d True show ?thesis by auto
    next
      case False
      with mids d show ?thesis by (auto simp: mid_def)
    qed
    show ?thesis using h False mids tips defd by (auto simp: res_def)
  qed
qed

lemma rect_rows:
  assumes wf: "wf_tree t"
  shows "\<exists>h. get_y_positions t = Inr h
           \<and> (\<forall>d \<in> set (find_clades (root_clade t)). clades d \<noteq> [] \<longrightarrow> mid h d)
           \<and> (\<forall>j < count_terminals t. h (oid (get_terminals t ! j)) = Some (real (Suc j)))
           \<and> (\<forall>d \<in> set (find_clades (root_clade t)). h (oid d) \<noteq> None)"
proof -
  let ?f = "\<lambda>i. real (count_terminals t) - real i"
  from layout_correct[OF wf, of ?f] obtain h where
    h: "get_y_positions t = Inr h"
    and mids: "\<forall>d \<in> set (find_clades (root_clade t)). clades d \<noteq> [] \<longrightarrow> mid h d"
    and tips: "\<forall>d \<in> set (get_terminals t). h (oid d) = tip_heights ?f (get_terminals t) (oid d)"
    and defd: "\<forall>d \<in> set (find_clades (root_clade t)). h (oid d) \<noteq> None"
    by (auto simp: get_y_positions_def Let_def)
  have "h (oid (get_terminals t ! j)) = Some (real (Suc j))" if j: "j < count_terminals t" for j
  proof -
    from j have lt: "j < length (get_terminals t)" by (simp add: count_terminals_def)
    then have "get_terminals t ! j \<in> set (get_terminals t)" by simp
    with tips have "h (oid (get_terminals t ! j)) = tip_heights ?f (get_terminals t) (oid (get_terminals t ! j))"
      by blast
    also have "\<dots> = Some (?f (length (get_terminals t) - Suc j))"
      by (rule tip_heights_nth[OF terminals_distinct[OF wf] lt])
    also have "?f (length (get_terminals t) - Suc j) = real (Suc j)"
      using lt by (simp add: count_terminals_def of_nat_diff)
    finally show ?thesis .
  qed
  with h mids defd show ?thesis by blast
qed

lemma polar_rows:
  assumes wf: "wf_tree t"
  shows "\<exists>h. get_y_positions_polar t = Inr h
           \<and> (\<forall>d \<in> set (find_clades (root_clade t)). clades d \<noteq> [] \<longrightarrow> mid h d)
           \<and> (\<forall>j < count_terminals t. h (oid (get_terminals t ! j))
                  = Some (2 * pi * real (Suc j) / real (count_terminals t)))
           \<and> (\<forall>d \<in> set (find_clades (root_clade t)). h (oid d) \<noteq> None)"
proof -
  let ?n = "count_terminals t"
  let ?f = "\<lambda>i. 2 * pi * (1 - real i / real ?n)"
  have nz: "\<not> (get_terminals t \<noteq> [] \<and> ?n = 0)" by (simp add: count_terminals_def)
  from layout_correct[OF wf, of ?f] nz obtain h where
    h: "get_y_positions_polar t = Inr h"
    and mids: "\<forall>d \<in> set (find_clades (root_clade t)). clades d \<noteq> [] \<longrightarrow> mid h d"
    and tips: "\<forall>d \<in> set (get_terminals t). h (oid d) = tip_heights ?f (get_terminals t) (oid d)"
    and defd: "\<forall>d \<in> set (find_clades (root_clade t)). h (oid d) \<noteq> None"
    by (auto simp: get_y_positions_polar_def Let_def)
  have "h (oid (get_terminals t ! j)) = Some (2 * pi * real (Suc j) / real ?n)"
    if j: "j < ?n" for j
  proof -
    from j have lt: "j < length (get_terminals t)" by (simp add: count_terminals_def)
    then have "get_terminals t ! j \<in> set (get_terminals t)" by simp
    with tips have "h (oid (get_terminals t ! j)) = tip_heights ?f (get_terminals t) (oid (get_terminals t ! j))"
      by blast
    also have "\<dots> = Some (?f (length (get_terminals t) - Suc j))"
      by (rule tip_heights_nth[OF terminals_distinct[OF wf] lt])
    also have "?f (length (get_terminals t) - Suc j) = 2 * pi * real (Suc j) / real ?n"
    proof -
      have "real (?n - Suc j) = real ?n - real (Suc j)" using j by (simp add: of_nat_diff)
      moreover have "real ?n \<noteq> 0" using j by simp
      ultimately show ?thesis
        by (simp add: count_terminals_def field_simps)
    qed
    finally show ?thesis .
  qed
  with h mids defd show ?thesis by blast
qed

lemma wf_tree_abc: "wf_tree tree_abc"
  by (simp add: wf_tree_def tree_abc_def leaf_def)

lemma terminals_abc: "get_terminals tree_abc = [leaf 2 ''A'' 1, leaf 3 ''B'' 1, leaf 4 ''C'' 1]"
  by (simp add: get_terminals_def tree_abc_def leaf_def is_terminal_def)

text \<open>
  Claim C1. In the dictionary returned by \<open>get_y_positions\<close>, in the rectangular and in the
  polar script, every clade with children has as its y-coordinate the arithmetic mean of
  the y-coordinates of its first and its last child; the function returns a dictionary
  (it raises nothing) on every tree, a tree being an object graph in which every clade
  object occurs once (\<open>wf_tree\<close>).
\<close>

theorem internal_clade_at_midpoint:
  assumes "wf_tree t"
  shows "\<exists>h hp. get_y_positions t = Inr h \<and> get_y_positions_polar t = Inr hp
           \<and> (\<forall>d \<in> set (find_clades (root_clade t)). clades d \<noteq> [] \<longrightarrow> mid h d \<and> mid hp d)"
  using rect_rows[OF assms] polar_rows[OF assms] by blast

theorem internal_clade_at_midpoint_witness:
  "wf_tree tree_abc \<and>
   (\<exists>h hp. get_y_positions tree_abc = Inr h \<and> get_y_positions_polar tree_abc = Inr hp
      \<and> mid h (root_clade tree_abc) \<and> mid hp (root_clade tree_abc))"
proof -
  have r: "root_clade tree_abc \<in> set (find_clades (root_clade tree_abc))"
    by (rule find_clades_self)
  have ne: "clades (root_clade tree_abc) \<noteq> []" by (simp add: tree_abc_def)
  from internal_clade_at_midpoint[OF wf_tree_abc] r ne wf_tree_abc show ?thesis by blast
qed



section \<open>Properties of the horizontal layout\<close>

lemma map_fst_clade_depths: "map fst (clade_depths f v c) = find_clades c"
  by (induction f v c rule: clade_depths.induct) (simp add: map_concat comp_def cong: map_cong)

lemma clade_depths_in_tree: "(d, x) \<in> set (clade_depths f v c) \<Longrightarrow> d \<in> set (find_clades c)"
proof -
  assume "(d, x) \<in> set (clade_depths f v c)"
  then have "d \<in> set (map fst (clade_depths f v c))" by force
  then show ?thesis by (simp only: map_fst_clade_depths)
qed

lemma clade_depths_total: "d \<in> set (find_clades c) \<Longrightarrow> \<exists>x. (d, x) \<in> set (clade_depths f v c)"
proof -
  assume "d \<in> set (find_clades c)"
  then have "d \<in> set (map fst (clade_depths f v c))" by (simp only: map_fst_clade_depths)
  then show ?thesis by auto
qed

lemma clade_depths_self: "(c, v) \<in> set (clade_depths f v c)"
  by (cases c) simp

lemma clade_depths_child:
  "(d, x) \<in> set (clade_depths f v c) \<Longrightarrow> e \<in> set (clades d)
   \<Longrightarrow> (e, x + f e) \<in> set (clade_depths f v c)"
proof (induction f v c rule: clade_depths.induct)
  case (1 f v i n b cf col w cs)
  show ?case
  proof (cases "(d, x) = (Clade i n b cf col w cs, v)")
    case True
    with 1(3) have "e \<in> set cs" by auto
    moreover have "(e, v + f e) \<in> set (clade_depths f (v + f e) e)" by (rule clade_depths_self)
    ultimately show ?thesis using True by auto
  next
    case False
    with 1(2) obtain c' where c': "c' \<in> set cs" "(d, x) \<in> set (clade_depths f (v + f c') c')"
      by auto
    from 1(1)[OF c' 1(3)] c'(1) show ?thesis by auto
  qed
qed

lemma update_depths_frame:
  "k \<notin> oid ` set (find_clades c) \<Longrightarrow> update_depths f c v m k = m k"
  and update_depths_loop_frame:
  "k \<notin> oid ` set (concat (map find_clades cs)) \<Longrightarrow> update_depths_loop f cs v m k = m k"
  by (induction f c v m and f cs v m rule: update_depths_update_depths_loop.induct)
     (auto simp: image_Un)

lemma update_depths_dom:
  "dom (update_depths f c v m) = dom m \<union> oid ` set (find_clades c)"
  and update_depths_loop_dom:
  "dom (update_depths_loop f cs v m) = dom m \<union> oid ` set (concat (map find_clades cs))"
  by (induction f c v m and f cs v m rule: update_depths_update_depths_loop.induct)
     (auto simp: image_Un simp del: fun_upd_apply)

lemma update_depths_value:
  "distinct (map oid (find_clades c)) \<Longrightarrow> (d, x) \<in> set (clade_depths f v c)
   \<Longrightarrow> update_depths f c v m (oid d) = Some x"
  and update_depths_loop_value:
  "distinct (map oid (concat (map find_clades cs)))
   \<Longrightarrow> (d, x) \<in> set (concat (map (\<lambda>child. clade_depths f (v + f child) child) cs))
   \<Longrightarrow> update_depths_loop f cs v m (oid d) = Some x"
proof (induction f c v m and f cs v m rule: update_depths_update_depths_loop.induct)
  case (1 depth_of i n b cf col w cs curr_depth depths)
  let ?c = "Clade i n b cf col w cs"
  from "1.prems"(1) have dist: "distinct (map oid (concat (map find_clades cs)))"
    and inot: "i \<notin> oid ` set (concat (map find_clades cs))" by auto
  show ?case
  proof (cases "(d, x) = (?c, curr_depth)")
    case True
    then show ?thesis using update_depths_loop_frame[OF inot] by simp
  next
    case False
    with "1.prems"(2) have
      "(d, x) \<in> set (concat (map (\<lambda>child. clade_depths depth_of (curr_depth + depth_of child) child) cs))"
      by auto
    from "1.IH"[OF dist this] show ?thesis by (simp only: update_depths.simps)
  qed
next
  case (2 depth_of curr_depth depths)
  then show ?case by simp
next
  case (3 depth_of child rest curr_depth depths)
  from "3.prems"(1) have dA: "distinct (map oid (find_clades child))"
    and dB: "distinct (map oid (concat (map find_clades rest)))"
    and disj: "oid ` set (find_clades child) \<inter> oid ` set (concat (map find_clades rest)) = {}"
    by auto
  show ?case
  proof (cases "(d, x) \<in> set (clade_depths depth_of (curr_depth + depth_of child) child)")
    case True
    then have "oid d \<in> oid ` set (find_clades child)" using clade_depths_in_tree by blast
    with disj have "oid d \<notin> oid ` set (concat (map find_clades rest))" by blast
    from update_depths_loop_frame[OF this] "3.IH"(1)[OF dA True] show ?thesis by simp
  next
    case False
    with "3.prems"(2) have
      "(d, x) \<in> set (concat (map (\<lambda>child. clade_depths depth_of (curr_depth + depth_of child) child) rest))"
      by auto
    from "3.IH"(2)[OF dB this] show ?thesis by simp
  qed
qed

lemma depths_value:
  assumes "wf_tree t"
    and "(d, x) \<in> set (clade_depths (if u then (\<lambda>c. 1) else branch_length_or_0)
                          (branch_length_or_0 (root_clade t)) (root_clade t))"
  shows "depths t u (oid d) = Some x"
proof -
  from assms(1) have "distinct (map oid (find_clades (root_clade t)))" by (simp add: wf_tree_def)
  from update_depths_value[OF this assms(2)] show ?thesis by (simp add: depths_def Let_def)
qed

lemma depths_dom: "dom (depths t u) = oid ` set (find_clades (root_clade t))"
  by (simp add: depths_def Let_def update_depths_dom)

text \<open>
  The values of the dictionary of depths are its values at the clades of the tree, which
  makes \<open>max(depths.values())\<close> a maximum over a list.
\<close>

lemma ran_depths:
  "ran (depths t u)
     = (\<lambda>c. case depths t u (oid c) of None \<Rightarrow> 0 | Some v \<Rightarrow> v) ` set (find_clades (root_clade t))"
proof (intro set_eqI iffI)
  fix x assume "x \<in> ran (depths t u)"
  then obtain k where k: "depths t u k = Some x" by (auto simp: ran_def)
  then have "k \<in> dom (depths t u)" by blast
  then obtain c where "c \<in> set (find_clades (root_clade t))" "k = oid c"
    by (auto simp: depths_dom)
  with k show "x \<in> (\<lambda>c. case depths t u (oid c) of None \<Rightarrow> 0 | Some v \<Rightarrow> v)
                    ` set (find_clades (root_clade t))"
    by force
next
  fix x assume "x \<in> (\<lambda>c. case depths t u (oid c) of None \<Rightarrow> 0 | Some v \<Rightarrow> v)
                    ` set (find_clades (root_clade t))"
  then obtain c where c: "c \<in> set (find_clades (root_clade t))"
    "x = (case depths t u (oid c) of None \<Rightarrow> 0 | Some v \<Rightarrow> v)" by blast
  from c(1) have "oid c \<in> dom (depths t u)" by (simp add: depths_dom)
  then obtain v where "depths t u (oid c) = Some v" by blast
  with c(2) show "x \<in> ran (depths t u)" by (auto simp: ran_def)
qed

lemma get_x_positions_code [code]:
  "get_x_positions t =
     (let depths0 = depths t False
      in if Max (set (map (\<lambda>c. case depths0 (oid c) of None \<Rightarrow> 0 | Some v \<Rightarrow> v)
                        (find_clades (root_clade t)))) = 0
         then depths t True else depths0)"
  by (simp add: get_x_positions_def Let_def ran_depths)

lemma get_x_positions_polar_code [code]:
  "get_x_positions_polar t cladogram treeDepth0 =
     (if cladogram then
        (case tree_depth_loop t (get_terminals t) 0 of
           Inl e \<Rightarrow> Inl e
         | Inr treeDepth \<Rightarrow>
             Inr (Some treeDepth,
                  terminals_to_tree_depth (find_clades (root_clade t)) treeDepth
                    (depths t True)))
      else
        (let depths0 = depths t False
         in Inr (treeDepth0,
                 if Max (set (map (\<lambda>c. case depths0 (oid c) of None \<Rightarrow> 0 | Some v \<Rightarrow> v)
                                (find_clades (root_clade t)))) = 0
                 then depths t True else depths0)))"
  by (simp add: get_x_positions_polar_def Let_def ran_depths)

text \<open>In either dictionary a child is entered at its parent's depth plus its own step.\<close>

lemma depths_child:
  assumes wf: "wf_tree t" and d: "d \<in> set (find_clades (root_clade t))" and e: "e \<in> set (clades d)"
  shows "\<exists>a. depths t u (oid d) = Some a
           \<and> depths t u (oid e) = Some (a + (if u then 1 else branch_length_or_0 e))"
proof -
  let ?f = "if u then (\<lambda>c. 1) else branch_length_or_0"
  from clade_depths_total[OF d] obtain a where
    a: "(d, a) \<in> set (clade_depths ?f (branch_length_or_0 (root_clade t)) (root_clade t))" by blast
  from clade_depths_child[OF a e] have
    e': "(e, a + ?f e) \<in> set (clade_depths ?f (branch_length_or_0 (root_clade t)) (root_clade t))" .
  have "depths t u (oid d) = Some a" by (rule depths_value[OF wf a])
  moreover have "depths t u (oid e) = Some (a + ?f e)" by (rule depths_value[OF wf e'])
  moreover have "?f e = (if u then 1 else branch_length_or_0 e)" by simp
  ultimately show ?thesis by simp
qed

lemma unit_depths_levels:
  "clade_depths (\<lambda>c. 1::real) (off + real k) c
     = map (\<lambda>(d, j). (d, off + real j)) (clade_depths (\<lambda>c. Suc 0) k c)"
proof (induction c arbitrary: k)
  case (Clade i n b cf col w cs)
  have "clade_depths (\<lambda>c. 1::real) (off + real k + 1) child
          = map (\<lambda>(d, j). (d, off + real j)) (clade_depths (\<lambda>c. Suc 0) (Suc k) child)"
    if "child \<in> set cs" for child
    using Clade[OF that, of "Suc k"] by (simp add: ac_simps)
  then show ?case by (simp add: map_concat comp_def cong: map_cong)
qed

lemma check_in_path_absent:
  "oid target \<notin> oid ` set (find_clades c) \<Longrightarrow> check_in_path (\<lambda>v. oid v = oid target) c = None"
  and check_in_path_loop_absent:
  "oid target \<notin> oid ` set (concat (map find_clades cs))
   \<Longrightarrow> check_in_path_loop (\<lambda>v. oid v = oid target) cs = None"
  by (induction "\<lambda>v. oid v = oid target" c and "\<lambda>v. oid v = oid target" cs
      rule: check_in_path_check_in_path_loop.induct)
     (auto simp: image_Un)

lemma check_in_path_level:
  "distinct (map oid (find_clades c)) \<Longrightarrow> (d, k) \<in> set (clade_depths (\<lambda>c. Suc 0) j c)
   \<Longrightarrow> \<exists>path. check_in_path (\<lambda>v. oid v = oid d) c = Some path \<and> length path + j = Suc k"
  and check_in_path_loop_level:
  "distinct (map oid (concat (map find_clades cs)))
   \<Longrightarrow> (d, k) \<in> set (concat (map (\<lambda>child. clade_depths (\<lambda>c. Suc 0) (Suc j) child) cs))
   \<Longrightarrow> \<exists>path. check_in_path_loop (\<lambda>v. oid v = oid d) cs = Some path \<and> length path + j = k"
proof (induction "\<lambda>v. oid v = oid d" c and "\<lambda>v. oid v = oid d" cs arbitrary: j and j
       rule: check_in_path_check_in_path_loop.induct)
  case (1 i n b cf col w cs)
  let ?c = "Clade i n b cf col w cs"
  from "1.prems"(1) have dist: "distinct (map oid (concat (map find_clades cs)))"
    and inot: "i \<notin> oid ` set (concat (map find_clades cs))" by auto
  show ?case
  proof (cases "(d, k) = (?c, j)")
    case True
    then show ?thesis by auto
  next
    case False
    with "1.prems"(2) have
      mem: "(d, k) \<in> set (concat (map (\<lambda>child. clade_depths (\<lambda>c. Suc 0) (Suc j) child) cs))"
      by auto
    then obtain c' where "c' \<in> set cs" "(d, k) \<in> set (clade_depths (\<lambda>c. Suc 0) (Suc j) c')"
      by auto
    then have "d \<in> set (concat (map find_clades cs))" using clade_depths_in_tree by fastforce
    with inot have ne: "oid d \<noteq> i" by auto
    then have nm: "\<not> oid ?c = oid d" by simp
    have cs: "cs \<noteq> []" using mem by auto
    from "1.hyps"[OF nm cs dist mem] obtain path where
      "check_in_path_loop (\<lambda>v. oid v = oid d) cs = Some path" "length path + j = k" by blast
    with nm cs show ?thesis by simp
  qed
next
  case 2
  then show ?case by simp
next
  case (3 child rest)
  from "3.prems"(1) have dA: "distinct (map oid (find_clades child))"
    and dB: "distinct (map oid (concat (map find_clades rest)))"
    and disj: "oid ` set (find_clades child) \<inter> oid ` set (concat (map find_clades rest)) = {}"
    by auto
  show ?case
  proof (cases "(d, k) \<in> set (clade_depths (\<lambda>c. Suc 0) (Suc j) child)")
    case True
    from "3.hyps"(1)[OF dA True] show ?thesis by auto
  next
    case False
    with "3.prems"(2) have
      mem: "(d, k) \<in> set (concat (map (\<lambda>child. clade_depths (\<lambda>c. Suc 0) (Suc j) child) rest))"
      by auto
    then obtain c' where "c' \<in> set rest" "(d, k) \<in> set (clade_depths (\<lambda>c. Suc 0) (Suc j) c')"
      by auto
    then have "d \<in> set (concat (map find_clades rest))" using clade_depths_in_tree by fastforce
    with disj have "oid d \<notin> oid ` set (find_clades child)" by blast
    from check_in_path_absent[OF this] have none: "check_in_path (\<lambda>v. oid v = oid d) child = None" .
    from "3.hyps"(2)[OF none dB mem] none show ?thesis by simp
  qed
qed

lemma get_path_level:
  assumes "wf_tree t" "(d, k) \<in> set (levels t)"
  shows "\<exists>path. get_path t d = Some path \<and> length path = k"
proof -
  from assms(1) have "distinct (map oid (find_clades (root_clade t)))" by (simp add: wf_tree_def)
  from check_in_path_level[OF this, of d k 0] assms(2) obtain path where
    "check_in_path (\<lambda>v. oid v = oid d) (root_clade t) = Some path" "length path = Suc k"
    by (auto simp: levels_def)
  then show ?thesis by (simp add: get_path_def)
qed

lemma terminals_to_tree_depth_value:
  "terminals_to_tree_depth cs td m k
     = (if k \<in> oid ` {c \<in> set cs. is_terminal c} then Some (real td) else m k)"
  by (induction cs arbitrary: m) auto

lemma has_terminal: "filter is_terminal (find_clades c) \<noteq> []"
proof (induction c)
  case (Clade i n b cf col w cs)
  show ?case
  proof (cases cs)
    case Nil
    then show ?thesis by (simp add: is_terminal_def)
  next
    case (Cons c' rest)
    then have "c' \<in> set cs" by simp
    from Clade[OF this] obtain e where "e \<in> set (find_clades c')" "is_terminal e"
      by (metis filter_False)
    with \<open>c' \<in> set cs\<close> have "e \<in> set (concat (map find_clades cs))" by auto
    with \<open>is_terminal e\<close> show ?thesis by (auto simp: filter_empty_conv)
  qed
qed

lemma tree_depth_loop_result:
  assumes wf: "wf_tree t"
  shows "\<forall>d \<in> set ts. \<exists>k. (d, k) \<in> set (levels t) \<Longrightarrow>
         \<exists>td. tree_depth_loop t ts acc = Inr td \<and> acc \<le> td
            \<and> (\<forall>d k. d \<in> set ts \<and> (d, k) \<in> set (levels t) \<longrightarrow> k \<le> td)
            \<and> (td = acc \<or> (\<exists>d \<in> set ts. (d, td) \<in> set (levels t)))"
proof (induction ts arbitrary: acc)
  case Nil
  then show ?case by simp
next
  case (Cons terminal rest)
  from Cons.prems obtain k where k: "(terminal, k) \<in> set (levels t)" by auto
  from get_path_level[OF wf k] obtain path where
    path: "get_path t terminal = Some path" "length path = k" by blast
  let ?acc = "if k > acc then k else acc"
  from Cons.prems have "\<forall>d \<in> set rest. \<exists>k. (d, k) \<in> set (levels t)" by simp
  from Cons.IH[OF this, of ?acc] obtain td where
    td: "tree_depth_loop t rest ?acc = Inr td" "?acc \<le> td"
      "\<forall>d k. d \<in> set rest \<and> (d, k) \<in> set (levels t) \<longrightarrow> k \<le> td"
      "td = ?acc \<or> (\<exists>d \<in> set rest. (d, td) \<in> set (levels t))" by blast
  have res: "tree_depth_loop t (terminal # rest) acc = Inr td"
    using path td(1) by (simp add: Let_def)
  have le: "acc \<le> td" using td(2) by (simp split: if_splits)
  have bound: "k' \<le> td" if "d \<in> set (terminal # rest)" "(d, k') \<in> set (levels t)" for d k'
  proof (cases "d = terminal")
    case True
    from get_path_level[OF wf that(2)] path True have "k' = k" by auto
    with td(2) show ?thesis by (simp split: if_splits)
  next
    case False
    with that td(3) show ?thesis by auto
  qed
  have att: "td = acc \<or> (\<exists>d \<in> set (terminal # rest). (d, td) \<in> set (levels t))"
    using td(4) k by (auto split: if_splits)
  from res le bound att show ?case by blast
qed

lemma levels_in_tree: "(d, k) \<in> set (levels t) \<Longrightarrow> d \<in> set (find_clades (root_clade t))"
  unfolding levels_def by (rule clade_depths_in_tree)

lemma levels_total: "d \<in> set (find_clades (root_clade t)) \<Longrightarrow> \<exists>k. (d, k) \<in> set (levels t)"
  unfolding levels_def by (rule clade_depths_total)

lemma unit_depths_value:
  assumes wf: "wf_tree t" and dk: "(d, k) \<in> set (levels t)"
  shows "depths t True (oid d) = Some (branch_length_or_0 (root_clade t) + real k)"
proof -
  let ?off = "branch_length_or_0 (root_clade t)"
  from unit_depths_levels[of ?off 0 "root_clade t"] dk
  have "(d, ?off + real k) \<in> set (clade_depths (\<lambda>c. 1::real) ?off (root_clade t))"
    by (force simp: levels_def)
  with depths_value[OF wf, of d "?off + real k" True] show ?thesis by simp
qed

lemma polar_cladogram:
  assumes wf: "wf_tree t"
  shows "\<exists>td x. get_x_positions_polar t True g = Inr (Some td, x)
           \<and> (\<forall>(d, k) \<in> set (levels t).
                 x (oid d) = Some (if clades d = [] then real td
                                   else branch_length_or_0 (root_clade t) + real k))
           \<and> (\<forall>(d, k) \<in> set (levels t). clades d = [] \<longrightarrow> k \<le> td)
           \<and> (\<exists>(d, k) \<in> set (levels t). clades d = [] \<and> k = td)"
proof -
  let ?r = "root_clade t"
  have dist: "distinct (map oid (find_clades ?r))" using wf by (simp add: wf_tree_def)
  have sub: "\<forall>d \<in> set (get_terminals t). \<exists>k. (d, k) \<in> set (levels t)"
    using levels_total by (auto simp: get_terminals_def)
  from tree_depth_loop_result[OF wf sub, of 0] obtain td where
    td: "tree_depth_loop t (get_terminals t) 0 = Inr td"
      "\<forall>d k. d \<in> set (get_terminals t) \<and> (d, k) \<in> set (levels t) \<longrightarrow> k \<le> td"
      "td = 0 \<or> (\<exists>d \<in> set (get_terminals t). (d, td) \<in> set (levels t))" by blast
  let ?x = "terminals_to_tree_depth (find_clades ?r) td (depths t True)"
  have res: "get_x_positions_polar t True g = Inr (Some td, ?x)"
    using td(1) by (simp add: get_x_positions_polar_def)
  have val: "?x (oid d) = Some (if clades d = [] then real td
                                else branch_length_or_0 ?r + real k)"
    if dk: "(d, k) \<in> set (levels t)" for d k
  proof -
    from dk have d: "d \<in> set (find_clades ?r)" by (rule levels_in_tree)
    have iff: "oid d \<in> oid ` {c \<in> set (find_clades ?r). is_terminal c} \<longleftrightarrow> clades d = []"
    proof
      assume "oid d \<in> oid ` {c \<in> set (find_clades ?r). is_terminal c}"
      then obtain e where e: "e \<in> set (find_clades ?r)" "is_terminal e" "oid e = oid d" by force
      with oid_inj[OF dist d e(1)] show "clades d = []" by (simp add: is_terminal_def)
    next
      assume "clades d = []"
      with d show "oid d \<in> oid ` {c \<in> set (find_clades ?r). is_terminal c}"
        by (auto simp: is_terminal_def)
    qed
    show ?thesis
      unfolding terminals_to_tree_depth_value using iff unit_depths_value[OF wf dk] by simp
  qed
  have bound: "k \<le> td" if "(d, k) \<in> set (levels t)" "clades d = []" for d k
  proof -
    from that have "d \<in> set (get_terminals t)"
      using levels_in_tree by (simp add: get_terminals_def is_terminal_def)
    with td(2) that(1) show ?thesis by blast
  qed
  have att: "\<exists>(d, k) \<in> set (levels t). clades d = [] \<and> k = td"
  proof -
    have "get_terminals t \<noteq> []" using has_terminal[of ?r] by (simp add: get_terminals_def)
    then obtain e where e: "e \<in> set (get_terminals t)" by (cases "get_terminals t") auto
    from td(3) show ?thesis
    proof
      assume z: "td = 0"
      from sub e obtain k where k: "(e, k) \<in> set (levels t)" by blast
      with td(2) e z have "k = 0" by auto
      with k e z show ?thesis by (force simp: get_terminals_def is_terminal_def)
    next
      assume "\<exists>d \<in> set (get_terminals t). (d, td) \<in> set (levels t)"
      then show ?thesis by (force simp: get_terminals_def is_terminal_def)
    qed
  qed
  from res val bound att show ?thesis by blast
qed

lemma levels_abc:
  "levels tree_abc = [(root_clade tree_abc, 0),
     (Clade 1 None (Some 1) None None None [leaf 2 ''A'' 1, leaf 3 ''B'' 1], 1),
     (leaf 2 ''A'' 1, 2), (leaf 3 ''B'' 1, 2), (leaf 4 ''C'' 1, 1)]"
  by (simp add: levels_def tree_abc_def leaf_def)

lemma depths_abc_unit: "depths tree_abc True = [0 \<mapsto> 0, 1 \<mapsto> 1, 2 \<mapsto> 2, 3 \<mapsto> 2, 4 \<mapsto> 1]"
  by (simp add: depths_def tree_abc_def leaf_def branch_length_or_0_def)

lemma tree_depth_abc: "tree_depth_loop tree_abc (get_terminals tree_abc) 0 = Inr 2"
  by (simp add: get_terminals_def tree_abc_def leaf_def is_terminal_def get_path_def)

lemma polar_x_abc:
  "get_x_positions_polar tree_abc True None
     = Inr (Some 2, [0 \<mapsto> 0, 1 \<mapsto> 1, 2 \<mapsto> 2, 3 \<mapsto> 2, 4 \<mapsto> 2])"
proof -
  have "[0 \<mapsto> 0, 1 \<mapsto> 1, 2 \<mapsto> 2, 3 \<mapsto> 2, 4 \<mapsto> 1, 2 \<mapsto> 2, 3 \<mapsto> 2, 4 \<mapsto> 2]
          = [0::nat \<mapsto> 0::real, 1 \<mapsto> 1, 2 \<mapsto> 2, 3 \<mapsto> 2, 4 \<mapsto> 2]"
    by (rule ext) simp
  moreover have "terminals_to_tree_depth (find_clades (root_clade tree_abc)) 2
                   [0 \<mapsto> 0, 1 \<mapsto> 1, 2 \<mapsto> 2, 3 \<mapsto> 2, 4 \<mapsto> 1]
                 = [0 \<mapsto> 0, 1 \<mapsto> 1, 2 \<mapsto> 2, 3 \<mapsto> 2, 4 \<mapsto> 1, 2 \<mapsto> 2, 3 \<mapsto> 2, 4 \<mapsto> 2]"
    by (simp add: tree_abc_def leaf_def is_terminal_def)
  ultimately show ?thesis
    by (simp add: get_x_positions_polar_def tree_depth_abc depths_abc_unit)
qed

lemma depths_neg: "depths tree_neg False = [0 \<mapsto> 0, 1 \<mapsto> - 1, 2 \<mapsto> 2]"
  by (simp add: depths_def tree_neg_def leaf_def branch_length_or_0_def)

lemma rect_x_neg: "get_x_positions tree_neg = [0 \<mapsto> 0, 1 \<mapsto> - 1, 2 \<mapsto> 2]"
proof -
  have "ran [0::nat \<mapsto> 0::real, 1 \<mapsto> - 1, 2 \<mapsto> 2] = {0, - 1, 2}" by auto
  then show ?thesis by (simp add: get_x_positions_def depths_neg)
qed


lemma depths_monotone:
  assumes wf: "wf_tree t" and nn: "nonneg_lengths t"
    and d: "d \<in> set (find_clades (root_clade t))" and e: "e \<in> set (clades d)"
  shows "\<exists>a b. depths t u (oid d) = Some a \<and> depths t u (oid e) = Some b \<and> a \<le> b"
proof -
  from find_clades_child[OF d e] nn have "0 \<le> branch_length_or_0 e"
    by (simp add: nonneg_lengths_def)
  with depths_child[OF wf d e, of u] show ?thesis by auto
qed

lemma root_offset_zero:
  assumes wf: "wf_tree t" and nn: "nonneg_lengths t" and mx: "Max (ran (depths t False)) = 0"
  shows "branch_length_or_0 (root_clade t) = 0"
proof -
  let ?off = "branch_length_or_0 (root_clade t)"
  have "finite (dom (depths t False))" by (simp add: depths_dom)
  then have fin: "finite (ran (depths t False))" by (rule finite_ran)
  have "depths t False (oid (root_clade t)) = Some ?off"
    by (rule depths_value[OF wf]) (simp add: clade_depths_self)
  then have "?off \<in> ran (depths t False)" by (rule ranI)
  with fin mx have "?off \<le> 0" using Max_ge by fastforce
  moreover have "0 \<le> ?off" using nn find_clades_self by (simp add: nonneg_lengths_def)
  ultimately show ?thesis by simp
qed

text \<open>
  Claim C3, as amended. On a tree without negative branch lengths: in the rectangular script
  (and in the polar script's branch for \<open>cladogram = False\<close>, which is the same code) the
  x-coordinate does not decrease from a clade to any of its children, and when the script
  falls back to unit branch lengths (the largest cumulative depth is zero) every clade's
  x-coordinate is its number of edges from the root. In the polar script as \<open>drawMark\<close>
  calls it (\<open>cladogram = True\<close>) unit lengths are always used: a clade with children is at the
  root's own branch length (zero when absent) plus its number of edges from the root, and
  every terminal is at \<open>treeDepth\<close>, the largest number of edges from the root to a terminal.
\<close>

theorem x_positions_layout:
  assumes wf: "wf_tree t" and nn: "nonneg_lengths t"
  shows "(\<forall>d \<in> set (find_clades (root_clade t)). \<forall>e \<in> set (clades d).
            \<exists>a b. get_x_positions t (oid d) = Some a \<and> get_x_positions t (oid e) = Some b
                 \<and> a \<le> b)
       \<and> (Max (ran (depths t False)) = 0 \<longrightarrow>
            (\<forall>(d, k) \<in> set (levels t). get_x_positions t (oid d) = Some (real k)))
       \<and> get_x_positions_polar t False g = Inr (g, get_x_positions t)
       \<and> (\<exists>td x. get_x_positions_polar t True g = Inr (Some td, x)
            \<and> (\<forall>(d, k) \<in> set (levels t).
                  x (oid d) = Some (if clades d = [] then real td
                                    else branch_length_or_0 (root_clade t) + real k))
            \<and> (\<forall>(d, k) \<in> set (levels t). clades d = [] \<longrightarrow> k \<le> td)
            \<and> (\<exists>(d, k) \<in> set (levels t). clades d = [] \<and> k = td))"
proof (intro conjI)
  show "\<forall>d \<in> set (find_clades (root_clade t)). \<forall>e \<in> set (clades d).
            \<exists>a b. get_x_positions t (oid d) = Some a \<and> get_x_positions t (oid e) = Some b
                 \<and> a \<le> b"
    using depths_monotone[OF wf nn] by (simp add: get_x_positions_def Let_def)
next
  show "Max (ran (depths t False)) = 0 \<longrightarrow>
            (\<forall>(d, k) \<in> set (levels t). get_x_positions t (oid d) = Some (real k))"
  proof (intro impI ballI, clarify)
    fix d k assume mx: "Max (ran (depths t False)) = 0" and dk: "(d, k) \<in> set (levels t)"
    from unit_depths_value[OF wf dk] root_offset_zero[OF wf nn mx] mx
    show "get_x_positions t (oid d) = Some (real k)"
      by (simp add: get_x_positions_def Let_def)
  qed
next
  show "get_x_positions_polar t False g = Inr (g, get_x_positions t)"
    by (simp add: get_x_positions_polar_def get_x_positions_def Let_def)
next
  show "\<exists>td x. get_x_positions_polar t True g = Inr (Some td, x)
            \<and> (\<forall>(d, k) \<in> set (levels t).
                  x (oid d) = Some (if clades d = [] then real td
                                    else branch_length_or_0 (root_clade t) + real k))
            \<and> (\<forall>(d, k) \<in> set (levels t). clades d = [] \<longrightarrow> k \<le> td)
            \<and> (\<exists>(d, k) \<in> set (levels t). clades d = [] \<and> k = td)"
    by (rule polar_cladogram[OF wf])
qed

lemma nonneg_abc: "nonneg_lengths tree_abc"
  by (simp add: nonneg_lengths_def tree_abc_def leaf_def branch_length_or_0_def)

theorem x_positions_layout_witness:
  "wf_tree tree_abc \<and> nonneg_lengths tree_abc
   \<and> (\<exists>a b. get_x_positions tree_abc (oid (root_clade tree_abc)) = Some a
            \<and> get_x_positions tree_abc (oid (leaf 4 ''C'' 1)) = Some b \<and> a \<le> b)
   \<and> (\<exists>td x. get_x_positions_polar tree_abc True None = Inr (Some td, x)
            \<and> x (oid (leaf 4 ''C'' 1)) = Some (real td)
            \<and> x (oid (root_clade tree_abc)) = Some 0)"
proof -
  have r: "root_clade tree_abc \<in> set (find_clades (root_clade tree_abc))"
    by (rule find_clades_self)
  have c: "leaf 4 ''C'' 1 \<in> set (clades (root_clade tree_abc))" by (simp add: tree_abc_def)
  have l: "(leaf 4 ''C'' 1, 1) \<in> set (levels tree_abc)"
    "(root_clade tree_abc, 0) \<in> set (levels tree_abc)" by (simp_all add: levels_abc)
  have o: "branch_length_or_0 (root_clade tree_abc) = 0"
    by (simp add: tree_abc_def branch_length_or_0_def)
  have k: "clades (leaf 4 ''C'' 1) = []" "clades (root_clade tree_abc) \<noteq> []"
    by (simp_all add: leaf_def tree_abc_def)
  from x_positions_layout[OF wf_tree_abc nonneg_abc, of None] have
    m: "\<forall>d \<in> set (find_clades (root_clade tree_abc)). \<forall>e \<in> set (clades d).
            \<exists>a b. get_x_positions tree_abc (oid d) = Some a
                 \<and> get_x_positions tree_abc (oid e) = Some b \<and> a \<le> b"
    and p: "\<exists>td x. get_x_positions_polar tree_abc True None = Inr (Some td, x)
            \<and> (\<forall>(d, k) \<in> set (levels tree_abc).
                  x (oid d) = Some (if clades d = [] then real td
                                    else branch_length_or_0 (root_clade tree_abc) + real k))"
    by blast+
  from m r c have 1: "\<exists>a b. get_x_positions tree_abc (oid (root_clade tree_abc)) = Some a
            \<and> get_x_positions tree_abc (oid (leaf 4 ''C'' 1)) = Some b \<and> a \<le> b" by blast
  from p obtain td x where x: "get_x_positions_polar tree_abc True None = Inr (Some td, x)"
    and v: "\<forall>(d, k) \<in> set (levels tree_abc).
                  x (oid d) = Some (if clades d = [] then real td
                                    else branch_length_or_0 (root_clade tree_abc) + real k)"
    by blast
  from v l(1) k(1) have 2: "x (oid (leaf 4 ''C'' 1)) = Some (real td)" by fastforce
  from v l(2) k(2) o have 3: "x (oid (root_clade tree_abc)) = Some 0" by fastforce
  from 1 2 3 x wf_tree_abc nonneg_abc show ?thesis by blast
qed

text \<open>
  Claim C3 as stated fails. In the polar script the leaf \<open>C\<close> of \<open>((A,B),C)\<close> is one edge
  from the root and is placed at 2. In the rectangular script the leaf \<open>A\<close> of \<open>(A:-1,B:2)\<close>
  is placed at -1, to the left of the root at 0, with cumulative branch lengths in use.
\<close>

theorem x_positions_counterexample:
  "(leaf 4 ''C'' 1, 1) \<in> set (levels tree_abc)
   \<and> get_x_positions_polar tree_abc True None
       = Inr (Some 2, [0 \<mapsto> 0, 1 \<mapsto> 1, 2 \<mapsto> 2, 3 \<mapsto> 2, 4 \<mapsto> 2])
   \<and> oid (leaf 4 ''C'' 1) = 4
   \<and> get_x_positions tree_neg = depths tree_neg False
   \<and> get_x_positions tree_neg = [0 \<mapsto> 0, 1 \<mapsto> - 1, 2 \<mapsto> 2]
   \<and> root_clade tree_neg = Clade 0 None None None None None [leaf 1 ''A'' (- 1), leaf 2 ''B'' 2]
   \<and> oid (leaf 1 ''A'' (- 1)) = 1"
  by (simp add: levels_abc polar_x_abc rect_x_neg depths_neg) (simp add: leaf_def tree_neg_def)

section \<open>Properties of the drawing\<close>

lemma draw_clade_ok:
  "\<forall>d \<in> set (find_clades c). x_posns env (oid d) \<noteq> None \<and> y_posns env (oid d) \<noteq> None
   \<Longrightarrow> \<exists>ops. draw_clade env c x_start col lw = Inr ops"
  and draw_descendents_ok:
  "\<forall>d \<in> set (concat (map find_clades cs)). x_posns env (oid d) \<noteq> None \<and> y_posns env (oid d) \<noteq> None
   \<Longrightarrow> \<exists>ops. draw_descendents env cs x_start col lw = Inr ops"
proof (induction env c x_start col lw and env cs x_start col lw
       rule: draw_clade_draw_descendents.induct)
  case (1 env i n b cf col w cs x_start color0 lw0)
  let ?c = "Clade i n b cf col w cs"
  from "1.prems" obtain x_here y_here where
    xy: "x_posns env i = Some x_here" "y_posns env i = Some y_here" by auto
  show ?case
  proof (cases "cs = []")
    case True
    with xy show ?thesis by (simp add: Let_def)
  next
    case False
    then have hl: "hd cs \<in> set (concat (map find_clades cs))"
        "last cs \<in> set (concat (map find_clades cs))"
      using find_clades_self[of "hd cs"] find_clades_self[of "last cs"] by auto
    have sub: "\<forall>d \<in> set (concat (map find_clades cs)).
                 x_posns env (oid d) \<noteq> None \<and> y_posns env (oid d) \<noteq> None"
      using "1.prems" by simp
    from sub hl have "y_posns env (oid (hd cs)) \<noteq> None" "y_posns env (oid (last cs)) \<noteq> None"
      by blast+
    then obtain y_top y_bot where
      tb: "y_posns env (oid (hd cs)) = Some y_top" "y_posns env (oid (last cs)) = Some y_bot"
      by auto
    from "1.IH"[OF xy(1) xy(2) refl refl refl False tb sub] obtain below where
      "draw_descendents env cs x_here (case col of None \<Rightarrow> color0 | Some c \<Rightarrow> to_hex c)
         (case w of None \<Rightarrow> lw0 | Some wd \<Rightarrow> wd * rc_linewidth env) = Inr below" by blast
    with xy tb False show ?thesis by (simp add: Let_def)
  qed
next
  case (2 env x_here color' lw)
  then show ?case by simp
next
  case (3 env child rest x_here color' lw)
  from "3.prems" have a: "\<forall>d \<in> set (find_clades child).
        x_posns env (oid d) \<noteq> None \<and> y_posns env (oid d) \<noteq> None"
    and b: "\<forall>d \<in> set (concat (map find_clades rest)).
        x_posns env (oid d) \<noteq> None \<and> y_posns env (oid d) \<noteq> None" by auto
  from "3.IH"(1)[OF a] obtain first where f: "draw_clade env child x_here color' lw = Inr first"
    by blast
  from "3.IH"(2)[OF f b] obtain others where "draw_descendents env rest x_here color' lw = Inr others"
    by blast
  with f show ?case by simp
qed


lemma draw_clade_Inr:
  assumes "draw_clade env (Clade i n b cf col w cs) x_start color0 lw0 = Inr ops"
  shows "\<exists>x_here y_here below rest.
           x_posns env i = Some x_here \<and> y_posns env i = Some y_here
           \<and> draw_descendents env cs x_here (case col of Some c \<Rightarrow> to_hex c | None \<Rightarrow> color0)
                (case w of Some wd \<Rightarrow> wd * rc_linewidth env | None \<Rightarrow> lw0) = Inr below
           \<and> ops = draw_clade_lines True ''horizontal'' y_here x_start x_here 0 0
                     (case col of Some c \<Rightarrow> to_hex c | None \<Rightarrow> color0)
                     (case w of Some wd \<Rightarrow> wd * rc_linewidth env | None \<Rightarrow> lw0)
                   @ label_text env (Clade i n b cf col w cs) x_here y_here
                   @ conf_text env (Clade i n b cf col w cs) x_start x_here y_here
                   @ rest @ below"
proof (cases "cs = []")
  case True
  with assms show ?thesis by (auto simp: Let_def split: option.splits)
next
  case False
  with assms show ?thesis by (auto simp: Let_def split: option.splits sum.splits)
qed

lemma draws_clade_in_mono:
  "draws_clade_in env d k ops \<Longrightarrow> set ops \<subseteq> set ops' \<Longrightarrow> draws_clade_in env d k ops'"
  unfolding draws_clade_in_def by (meson subset_trans)

lemma draw_clade_emits:
  "draw_clade env c x_start col lw = Inr ops \<Longrightarrow> (d, k) \<in> set (edge_colors col c) \<Longrightarrow>
     draws_clade_in env d k ops"
  and draw_descendents_emits:
  "draw_descendents env cs x_start col lw = Inr ops
   \<Longrightarrow> (d, k) \<in> set (concat (map (edge_colors col) cs)) \<Longrightarrow> draws_clade_in env d k ops"
proof (induction env c x_start col lw and env cs x_start col lw arbitrary: ops and ops
       rule: draw_clade_draw_descendents.induct)
  case (1 env i n b cf col w cs x_start color0 lw0)
  let ?c = "Clade i n b cf col w cs"
  let ?color = "case col of Some c \<Rightarrow> to_hex c | None \<Rightarrow> color0"
  let ?lw = "case w of Some wd \<Rightarrow> wd * rc_linewidth env | None \<Rightarrow> lw0"
  from draw_clade_Inr[OF "1.prems"(1)] obtain x_here y_here below rest where
    xy: "x_posns env i = Some x_here" "y_posns env i = Some y_here"
    and below: "draw_descendents env cs x_here ?color ?lw = Inr below"
    and ops: "ops = draw_clade_lines True ''horizontal'' y_here x_start x_here 0 0 ?color ?lw
                   @ label_text env ?c x_here y_here
                   @ conf_text env ?c x_start x_here y_here @ rest @ below"
    by blast
  show ?case
  proof (cases "(d, k) = (?c, ?color)")
    case True
    with xy ops show ?thesis unfolding draws_clade_in_def by auto
  next
    case False
    with "1.prems"(2) have mem: "(d, k) \<in> set (concat (map (edge_colors ?color) cs))" by auto
    then have ne: "cs \<noteq> []" by auto
    from "1.prems"(1) xy ne obtain y_top y_bot where
      tb: "y_posns env (oid (hd cs)) = Some y_top" "y_posns env (oid (last cs)) = Some y_bot"
      by (auto simp: Let_def split: option.splits)
    from "1.IH"[OF xy(1) xy(2) refl refl refl ne tb below mem]
    have "draws_clade_in env d k below" .
    then show ?thesis by (rule draws_clade_in_mono) (auto simp: ops)
  qed
next
  case (2 env x_here color' lw)
  then show ?case by simp
next
  case (3 env child rest x_here color' lw)
  from "3.prems"(1) obtain first others where
    f: "draw_clade env child x_here color' lw = Inr first"
    and o: "draw_descendents env rest x_here color' lw = Inr others"
    and ops: "ops = first @ others"
    by (auto split: sum.splits)
  show ?case
  proof (cases "(d, k) \<in> set (edge_colors color' child)")
    case True
    from "3.IH"(1)[OF f True] show ?thesis by (rule draws_clade_in_mono) (auto simp: ops)
  next
    case False
    with "3.prems"(2) have "(d, k) \<in> set (concat (map (edge_colors color') rest))" by auto
    from "3.IH"(2)[OF f o this] show ?thesis by (rule draws_clade_in_mono) (auto simp: ops)
  qed
qed

lemma draw_clade_polar_ok:
  "\<forall>d \<in> set (find_clades c). x_posns env (oid d) \<noteq> None \<and> y_posns env (oid d) \<noteq> None
   \<Longrightarrow> \<exists>ops. draw_clade_polar env c x_start col lw = Inr ops"
  and draw_descendents_polar_ok:
  "\<forall>d \<in> set (concat (map find_clades cs)). x_posns env (oid d) \<noteq> None \<and> y_posns env (oid d) \<noteq> None
   \<Longrightarrow> \<exists>ops. draw_descendents_polar env cs x_start col lw = Inr ops"
proof (induction env c x_start col lw and env cs x_start col lw
       rule: draw_clade_polar_draw_descendents_polar.induct)
  case (1 env i n b cf col w cs x_start color0 lw0)
  let ?c = "Clade i n b cf col w cs"
  from "1.prems" obtain x_here y_here where
    xy: "x_posns env i = Some x_here" "y_posns env i = Some y_here" by auto
  show ?case
  proof (cases "cs = []")
    case True
    with xy show ?thesis by (simp add: Let_def)
  next
    case False
    then have hl: "hd cs \<in> set (concat (map find_clades cs))"
        "last cs \<in> set (concat (map find_clades cs))"
      using find_clades_self[of "hd cs"] find_clades_self[of "last cs"] by auto
    have sub: "\<forall>d \<in> set (concat (map find_clades cs)).
                 x_posns env (oid d) \<noteq> None \<and> y_posns env (oid d) \<noteq> None"
      using "1.prems" by simp
    from sub hl have "y_posns env (oid (hd cs)) \<noteq> None" "y_posns env (oid (last cs)) \<noteq> None"
      by blast+
    then obtain y_top y_bot where
      tb: "y_posns env (oid (hd cs)) = Some y_top" "y_posns env (oid (last cs)) = Some y_bot"
      by auto
    from "1.IH"[OF xy(1) xy(2) refl refl refl False tb sub] obtain below where
      "draw_descendents_polar env cs x_here (case col of None \<Rightarrow> color0 | Some c \<Rightarrow> to_hex c)
         (case w of None \<Rightarrow> lw0 | Some wd \<Rightarrow> wd * rc_linewidth env) = Inr below" by blast
    with xy tb False show ?thesis by (simp add: Let_def)
  qed
next
  case (2 env x_here color' lw)
  then show ?case by simp
next
  case (3 env child rest x_here color' lw)
  from "3.prems" have a: "\<forall>d \<in> set (find_clades child).
        x_posns env (oid d) \<noteq> None \<and> y_posns env (oid d) \<noteq> None"
    and b: "\<forall>d \<in> set (concat (map find_clades rest)).
        x_posns env (oid d) \<noteq> None \<and> y_posns env (oid d) \<noteq> None" by auto
  from "3.IH"(1)[OF a] obtain first where f: "draw_clade_polar env child x_here color' lw = Inr first"
    by blast
  from "3.IH"(2)[OF f b] obtain others where "draw_descendents_polar env rest x_here color' lw = Inr others"
    by blast
  with f show ?case by simp
qed


lemma draw_clade_polar_Inr:
  assumes "draw_clade_polar env (Clade i n b cf col w cs) x_start color0 lw0 = Inr ops"
  shows "\<exists>x_here y_here below rest.
           x_posns env i = Some x_here \<and> y_posns env i = Some y_here
           \<and> draw_descendents_polar env cs x_here (case col of Some c \<Rightarrow> to_hex c | None \<Rightarrow> color0)
                (case w of Some wd \<Rightarrow> wd * rc_linewidth env | None \<Rightarrow> lw0) = Inr below
           \<and> ops = draw_clade_lines_polar False ''horizontal'' y_here x_start x_here 0 0
                     (case col of Some c \<Rightarrow> to_hex c | None \<Rightarrow> color0)
                     (case w of Some wd \<Rightarrow> wd * rc_linewidth env | None \<Rightarrow> lw0) 100
                   @ conf_text env (Clade i n b cf col w cs) x_start x_here y_here
                   @ rest @ below"
proof (cases "cs = []")
  case True
  with assms show ?thesis by (auto simp: Let_def split: option.splits)
next
  case False
  with assms show ?thesis by (auto simp: Let_def split: option.splits sum.splits)
qed



lemma map_fst_edge_colors: "map fst (edge_colors col c) = find_clades c"
  by (induction col c rule: edge_colors.induct) (simp add: map_concat comp_def cong: map_cong)

lemma edge_colors_total: "d \<in> set (find_clades c) \<Longrightarrow> \<exists>k. (d, k) \<in> set (edge_colors col c)"
proof -
  assume "d \<in> set (find_clades c)"
  then have "d \<in> set (map fst (edge_colors col c))" by (simp only: map_fst_edge_colors)
  then show ?thesis by auto
qed












lemma drawMark_Inr:
  assumes "drawMark P t opts = Inr fig"
  shows "\<exists>fbl ys. get_y_positions t = Inr ys
           \<and> draw_clade (make_env P opts fbl (get_x_positions t) ys) (root_clade t) 0 ''k''
                (lines_linewidth P) = Inr (drawn fig)"
  using assms by (auto simp: drawMark_def split: sum.splits axes_option.splits)

lemma drawMark_polar_Inr:
  assumes "drawMark_polar P t opts = Inr fig"
  shows "\<exists>fbl td xs ys. get_x_positions_polar t True None = Inr (td, xs)
           \<and> get_y_positions_polar t = Inr ys
           \<and> draw_clade_polar (make_env P opts fbl xs ys) (root_clade t) 0 ''k''
                (lines_linewidth P) = Inr (drawn fig)"
  using assms
  by (auto simp: drawMark_polar_def split: sum.splits axes_option.splits option.splits prod.splits)

lemma conf_text_kw:
  "Text x y s kw \<in> set (conf_text env d xs xh yh)
   \<Longrightarrow> kw = [(''fontsize'', ''small''), (''horizontalalignment'', ''center'')]"
  by (auto simp: conf_text_def split: option.splits if_splits)

lemma lines_polar_no_text: "Text x y s kw \<notin> set (draw_clade_lines_polar u ori yh xs xh yb yt k lw r)"
  by (auto simp: draw_clade_lines_polar_def)

lemma draw_clade_polar_texts:
  "draw_clade_polar env c x_start col lw = Inr ops \<Longrightarrow> Text x y s kw \<in> set ops
   \<Longrightarrow> kw = [(''fontsize'', ''small''), (''horizontalalignment'', ''center'')]"
  and draw_descendents_polar_texts:
  "draw_descendents_polar env cs x_start col lw = Inr ops \<Longrightarrow> Text x y s kw \<in> set ops
   \<Longrightarrow> kw = [(''fontsize'', ''small''), (''horizontalalignment'', ''center'')]"
proof (induction env c x_start col lw and env cs x_start col lw arbitrary: ops and ops
       rule: draw_clade_polar_draw_descendents_polar.induct)
  case (1 env i n b cf col w cs x_start color0 lw0)
  let ?c = "Clade i n b cf col w cs"
  let ?color = "case col of Some c \<Rightarrow> to_hex c | None \<Rightarrow> color0"
  let ?lw = "case w of Some wd \<Rightarrow> wd * rc_linewidth env | None \<Rightarrow> lw0"
  from "1.prems"(1) obtain x_here y_here where
    xy: "x_posns env i = Some x_here" "y_posns env i = Some y_here"
    by (auto split: option.splits)
  show ?case
  proof (cases "cs = []")
    case True
    with "1.prems" xy show ?thesis
      by (auto simp: Let_def lines_polar_no_text dest: conf_text_kw)
  next
    case False
    with "1.prems"(1) xy obtain y_top y_bot below where
      tb: "y_posns env (oid (hd cs)) = Some y_top" "y_posns env (oid (last cs)) = Some y_bot"
      and below: "draw_descendents_polar env cs x_here ?color ?lw = Inr below"
      and ops: "ops = draw_clade_lines_polar False ''horizontal'' y_here x_start x_here 0 0 ?color ?lw 100
                   @ conf_text env ?c x_start x_here y_here
                   @ draw_clade_lines_polar False ''vertical'' 0 0 x_here y_bot y_top ?color ?lw 100
                   @ below"
      by (auto simp: Let_def split: option.splits sum.splits)
    from "1.prems"(2) ops have
      "Text x y s kw \<in> set (conf_text env ?c x_start x_here y_here) \<or> Text x y s kw \<in> set below"
      by (auto simp: lines_polar_no_text)
    then show ?thesis
    proof
      assume "Text x y s kw \<in> set (conf_text env ?c x_start x_here y_here)"
      then show ?thesis by (rule conf_text_kw)
    next
      assume "Text x y s kw \<in> set below"
      with "1.IH"[OF xy(1) xy(2) refl refl refl False tb below] show ?thesis by blast
    qed
  qed
next
  case (2 env x_here color' lw)
  then show ?case by simp
next
  case (3 env child rest x_here color' lw)
  from "3.prems"(1) obtain first others where
    f: "draw_clade_polar env child x_here color' lw = Inr first"
    and o: "draw_descendents_polar env rest x_here color' lw = Inr others"
    and ops: "ops = first @ others"
    by (auto split: sum.splits)
  from "3.prems"(2) ops have "Text x y s kw \<in> set first \<or> Text x y s kw \<in> set others" by auto
  then show ?case using "3.IH"(1)[OF f] "3.IH"(2)[OF f o] by blast
qed

text \<open>
  Claim C4, as amended. In the rectangular script, every clade (leaf or not) whose label
  is neither None nor the class name has its label drawn at its position: with the
  highlight color \<open>markColor\<close> and the weight \<open>markWeight\<close> when the label is in \<open>mark\<close>, and
  with the label color otherwise (black unless \<open>label_colors\<close> says otherwise). The polar
  script draws no taxon labels at all: every text it draws is a branch label.
\<close>

theorem marked_labels_highlighted:
  assumes "drawMark P t opts = Inr fig"
    and "d \<in> set (find_clades (root_clade t))"
    and "opt_label_func opts d = Some l" and "l \<noteq> ''Clade''"
  shows "(\<exists>x y. get_x_positions t (oid d) = Some x \<and> get_y_positions t = Inr y
            \<and> (\<exists>yd. y (oid d) = Some yd
                 \<and> (if l \<in> set (opt_mark opts)
                     then Text x yd (CHR '' '' # l)
                            [(''verticalalignment'', ''center''), (''color'', opt_markColor opts),
                             (''fontweight'', opt_markWeight opts)]
                     else Text x yd (CHR '' '' # l)
                            [(''verticalalignment'', ''center''),
                             (''color'', make_get_label_color (opt_label_colors opts) l)])
                    \<in> set (drawn fig)))
       \<and> (\<forall>pfig x y s kw. drawMark_polar P t opts = Inr pfig \<and> Text x y s kw \<in> set (drawn pfig)
            \<longrightarrow> kw = [(''fontsize'', ''small''), (''horizontalalignment'', ''center'')])"
proof (intro conjI allI impI)
  from drawMark_Inr[OF assms(1)] obtain fbl ys where
    ys: "get_y_positions t = Inr ys"
    and dr: "draw_clade (make_env P opts fbl (get_x_positions t) ys) (root_clade t) 0 ''k''
                (lines_linewidth P) = Inr (drawn fig)" by blast
  let ?env = "make_env P opts fbl (get_x_positions t) ys"
  from edge_colors_total[OF assms(2), of "''k''"] obtain k where
    "(d, k) \<in> set (edge_colors ''k'' (root_clade t))" by blast
  from draw_clade_emits[OF dr this] obtain x y where
    x: "get_x_positions t (oid d) = Some x" and y: "ys (oid d) = Some y"
    and sub: "set (label_text ?env d x y) \<subseteq> set (drawn fig)"
    by (auto simp: draws_clade_in_def make_env_def)
  have "(if l \<in> set (opt_mark opts)
         then Text x y (CHR '' '' # l)
                [(''verticalalignment'', ''center''), (''color'', opt_markColor opts),
                 (''fontweight'', opt_markWeight opts)]
         else Text x y (CHR '' '' # l)
                [(''verticalalignment'', ''center''),
                 (''color'', make_get_label_color (opt_label_colors opts) l)])
        \<in> set (label_text ?env d x y)"
    using assms(3,4) by (simp add: label_text_def make_env_def)
  with sub x y ys show "\<exists>x y. get_x_positions t (oid d) = Some x \<and> get_y_positions t = Inr y
            \<and> (\<exists>yd. y (oid d) = Some yd
                 \<and> (if l \<in> set (opt_mark opts)
                     then Text x yd (CHR '' '' # l)
                            [(''verticalalignment'', ''center''), (''color'', opt_markColor opts),
                             (''fontweight'', opt_markWeight opts)]
                     else Text x yd (CHR '' '' # l)
                            [(''verticalalignment'', ''center''),
                             (''color'', make_get_label_color (opt_label_colors opts) l)])
                    \<in> set (drawn fig))"
    by blast
next
  fix pfig x y s kw
  assume a: "drawMark_polar P t opts = Inr pfig \<and> Text x y s kw \<in> set (drawn pfig)"
  from drawMark_polar_Inr[of P t opts pfig] a obtain fbl xs ys where
    "draw_clade_polar (make_env P opts fbl xs ys) (root_clade t) 0 ''k''
                (lines_linewidth P) = Inr (drawn pfig)" by blast
  from draw_clade_polar_texts[OF this] a
  show "kw = [(''fontsize'', ''small''), (''horizontalalignment'', ''center'')]" by blast
qed


lemma y_abc: "get_y_positions tree_abc = Inr [4 \<mapsto> 3, 3 \<mapsto> 2, 2 \<mapsto> 1, 1 \<mapsto> 3 / 2, 0 \<mapsto> 9 / 4]"
  by (simp add: get_y_positions_def tree_abc_def leaf_def get_terminals_def is_terminal_def
      count_terminals_def tip_heights_def tip_entry_def)

lemma depths_abc: "depths tree_abc False = [0 \<mapsto> 0, 1 \<mapsto> 1, 2 \<mapsto> 2, 3 \<mapsto> 2, 4 \<mapsto> 1]"
  by (simp add: depths_def tree_abc_def leaf_def branch_length_or_0_def)

lemma x_abc: "get_x_positions tree_abc = [0 \<mapsto> 0, 1 \<mapsto> 1, 2 \<mapsto> 2, 3 \<mapsto> 2, 4 \<mapsto> 1]"
proof -
  have "ran [0::nat \<mapsto> 0::real, 1 \<mapsto> 1, 2 \<mapsto> 2, 3 \<mapsto> 2, 4 \<mapsto> 1] = {0, 1, 2}" by auto
  then show ?thesis by (simp add: get_x_positions_def depths_abc)
qed

lemma layout_draw_ok:
  assumes wf: "wf_tree t"
  shows "\<exists>ys. get_y_positions t = Inr ys
           \<and> (\<forall>d \<in> set (find_clades (root_clade t)).
                 get_x_positions t (oid d) \<noteq> None \<and> ys (oid d) \<noteq> None)
           \<and> (\<forall>env x0 c0 lw0. x_posns env = get_x_positions t \<and> y_posns env = ys \<longrightarrow>
                 (\<exists>ops. draw_clade env (root_clade t) x0 c0 lw0 = Inr ops))"
proof -
  from rect_rows[OF wf] obtain ys where ys: "get_y_positions t = Inr ys"
    and yd: "\<forall>d \<in> set (find_clades (root_clade t)). ys (oid d) \<noteq> None" by blast
  have xd: "get_x_positions t (oid d) \<noteq> None" if "d \<in> set (find_clades (root_clade t))" for d
  proof -
    from that have "oid d \<in> dom (depths t True)" "oid d \<in> dom (depths t False)"
      by (simp_all add: depths_dom)
    then show ?thesis by (auto simp: get_x_positions_def Let_def)
  qed
  have "\<exists>ops. draw_clade env (root_clade t) x0 c0 lw0 = Inr ops"
    if "x_posns env = get_x_positions t \<and> y_posns env = ys" for env x0 c0 lw0
    using that xd yd by (intro draw_clade_ok) simp
  with ys xd yd show ?thesis by blast
qed

lemma layout_draw_polar_ok:
  assumes wf: "wf_tree t"
  shows "\<exists>td xs ys. get_x_positions_polar t True g = Inr (Some td, xs)
           \<and> get_y_positions_polar t = Inr ys
           \<and> (\<forall>d \<in> set (find_clades (root_clade t)). xs (oid d) \<noteq> None \<and> ys (oid d) \<noteq> None)
           \<and> (\<forall>env x0 c0 lw0. x_posns env = xs \<and> y_posns env = ys \<longrightarrow>
                 (\<exists>ops. draw_clade_polar env (root_clade t) x0 c0 lw0 = Inr ops))"
proof -
  from polar_rows[OF wf] obtain ys where ys: "get_y_positions_polar t = Inr ys"
    and yd: "\<forall>d \<in> set (find_clades (root_clade t)). ys (oid d) \<noteq> None" by blast
  from polar_cladogram[OF wf, of g] obtain td xs where
    xs: "get_x_positions_polar t True g = Inr (Some td, xs)"
    and xv: "\<forall>(d, k) \<in> set (levels t).
                 xs (oid d) = Some (if clades d = [] then real td
                                    else branch_length_or_0 (root_clade t) + real k)" by blast
  have xd: "xs (oid d) \<noteq> None" if "d \<in> set (find_clades (root_clade t))" for d
  proof -
    from levels_total[OF that] obtain k where "(d, k) \<in> set (levels t)" by blast
    with xv show ?thesis by fastforce
  qed
  have "\<exists>ops. draw_clade_polar env (root_clade t) x0 c0 lw0 = Inr ops"
    if "x_posns env = xs \<and> y_posns env = ys" for env x0 c0 lw0
    using that xd yd by (intro draw_clade_polar_ok) simp
  with xs ys xd yd show ?thesis by blast
qed

lemma py_dict_items_no_KeyError: "py_dict_items items \<noteq> Inl KeyError"
  by (induction items) (auto split: option.splits list.splits pyval.splits sum.splits)

lemma process_kwarg_no_KeyError: "process_kwarg P kv \<noteq> Inl KeyError"
  using py_dict_items_no_KeyError
  by (auto simp: process_kwarg_def call_plt_def py_dict_def
      split: prod.splits option.splits list.splits pyval.splits sum.splits)

lemma process_kwargs_no_KeyError: "process_kwargs P kws \<noteq> Inl KeyError"
  using process_kwarg_no_KeyError
  by (induction kws) (auto split: sum.splits)


lemma drawMark_polar_default_ok:
  assumes wf: "wf_tree t"
  shows "\<exists>fig. drawMark_polar plt_ok t (default_options marks) = Inr fig"
proof -
  let ?opts = "default_options marks"
  obtain fbl where fbl: "make_format_branch_label (py_str_int plt_ok) (py_str_float plt_ok)
             (opt_branch_labels ?opts) (opt_show_confidence ?opts) = Inr fbl"
    by (simp add: make_format_branch_label_def default_options_def)
  from layout_draw_polar_ok[OF wf, of None] obtain td xs ys where
    xs: "get_x_positions_polar t True None = Inr (Some td, xs)"
    and ys: "get_y_positions_polar t = Inr ys"
    and dr: "\<forall>env x0 c0 lw0. x_posns env = xs \<and> y_posns env = ys \<longrightarrow>
                 (\<exists>ops. draw_clade_polar env (root_clade t) x0 c0 lw0 = Inr ops)" by blast
  from dr[rule_format, of "make_env plt_ok ?opts fbl xs ys" 0 "''k''" "lines_linewidth plt_ok"]
  obtain ops where "draw_clade_polar (make_env plt_ok ?opts fbl xs ys) (root_clade t) 0 ''k''
      (lines_linewidth plt_ok) = Inr ops" by (auto simp: make_env_def)
  with fbl xs ys show ?thesis
    by (simp add: drawMark_polar_def import_plt_def) (simp add: plt_ok_def default_options_def)
qed

lemma drawMark_abc:
  "drawMark plt_ok tree_abc (default_options [''A''])
     = Inr \<lparr> drawn = [HorizontalCollection [(0, 9 / 4), (0, 9 / 4)] ''k'' 1,
                       VerticalCollection [(0, 3), (0, 3 / 2)] ''k'' 1,
                       HorizontalCollection [(0, 3 / 2), (1, 3 / 2)] ''k'' 1,
                       VerticalCollection [(1, 2), (1, 1)] ''k'' 1,
                       HorizontalCollection [(1, 1), (2, 1)] ''k'' 1,
                       Text 2 1 '' A'' [(''verticalalignment'', ''center''), (''color'', ''r''),
                                        (''fontweight'', ''bold'')],
                       HorizontalCollection [(1, 2), (2, 2)] ''k'' 1,
                       Text 2 2 '' B'' [(''verticalalignment'', ''center''), (''color'', ''black'')],
                       HorizontalCollection [(0, 3), (1, 3)] ''k'' 1,
                       Text 1 3 '' C'' [(''verticalalignment'', ''center''), (''color'', ''black'')]],
              pyplot_calls = [], shown = False \<rparr>"
  by (simp add: drawMark_def import_plt_def plt_ok_def default_options_def
      make_format_branch_label_def y_abc x_abc make_env_def)
     (simp add: tree_abc_def leaf_def Let_def draw_clade_lines_def label_text_def conf_text_def
      make_get_label_color_def)

theorem marked_labels_highlighted_witness:
  "leaf 2 ''A'' 1 \<in> set (find_clades (root_clade tree_abc))
   \<and> opt_label_func (default_options [''A'']) (leaf 2 ''A'' 1) = Some ''A''
   \<and> ''A'' \<noteq> ''Clade'' \<and> ''A'' \<in> set (opt_mark (default_options [''A'']))
   \<and> (\<exists>fig x yd. drawMark plt_ok tree_abc (default_options [''A'']) = Inr fig
         \<and> Text x yd '' A'' [(''verticalalignment'', ''center''), (''color'', ''r''),
                              (''fontweight'', ''bold'')] \<in> set (drawn fig))"
proof -
  have d: "leaf 2 ''A'' 1 \<in> set (find_clades (root_clade tree_abc))"
    by (simp add: tree_abc_def leaf_def)
  have l: "opt_label_func (default_options [''A'']) (leaf 2 ''A'' 1) = Some ''A''"
    by (simp add: default_options_def leaf_def)
  have m: "''A'' \<in> set (opt_mark (default_options [''A'']))" "''A'' \<noteq> ''Clade''"
    "opt_markColor (default_options [''A'']) = ''r''"
    "opt_markWeight (default_options [''A'']) = ''bold''"
    by (simp_all add: default_options_def)
  from marked_labels_highlighted[OF drawMark_abc d l m(2)] m d l drawMark_abc
  show ?thesis by (simp del: One_nat_def)
qed

lemma lines_polar_filter_text:
  "filter is_text (draw_clade_lines_polar u ori yh xs xh yb yt k lw r) = []"
  by (simp add: draw_clade_lines_polar_def)

lemma draw_clade_polar_no_text:
  "draw_clade_polar env c x_start col lw = Inr ops
   \<Longrightarrow> \<forall>d \<in> set (find_clades c). format_branch_label env d = None
   \<Longrightarrow> filter is_text ops = []"
  and draw_descendents_polar_no_text:
  "draw_descendents_polar env cs x_start col lw = Inr ops
   \<Longrightarrow> \<forall>d \<in> set (concat (map find_clades cs)). format_branch_label env d = None
   \<Longrightarrow> filter is_text ops = []"
proof (induction env c x_start col lw and env cs x_start col lw arbitrary: ops and ops
       rule: draw_clade_polar_draw_descendents_polar.induct)
  case (1 env i n b cf col w cs x_start color0 lw0)
  let ?c = "Clade i n b cf col w cs"
  let ?color = "case col of Some c \<Rightarrow> to_hex c | None \<Rightarrow> color0"
  let ?lw = "case w of Some wd \<Rightarrow> wd * rc_linewidth env | None \<Rightarrow> lw0"
  from draw_clade_polar_Inr[OF "1.prems"(1)] obtain x_here y_here below rest where
    xy: "x_posns env i = Some x_here" "y_posns env i = Some y_here"
    and below: "draw_descendents_polar env cs x_here ?color ?lw = Inr below"
    by blast
  from "1.prems"(2) have nc: "conf_text env ?c x_start x_here y_here = []"
    by (simp add: conf_text_def)
  show ?case
  proof (cases "cs = []")
    case True
    with "1.prems"(1) xy nc show ?thesis by (auto simp: Let_def lines_polar_filter_text)
  next
    case False
    with "1.prems"(1) xy obtain y_top y_bot where
      tb: "y_posns env (oid (hd cs)) = Some y_top" "y_posns env (oid (last cs)) = Some y_bot"
      by (auto simp: Let_def split: option.splits)
    from "1.prems"(2) have sub: "\<forall>d \<in> set (concat (map find_clades cs)). format_branch_label env d = None"
      by simp
    from "1.IH"[OF xy(1) xy(2) refl refl refl False tb below sub] have "filter is_text below = []" .
    with "1.prems"(1) xy tb below False nc show ?thesis
      by (auto simp: Let_def lines_polar_filter_text)
  qed
next
  case (2 env x_here color' lw)
  then show ?case by simp
next
  case (3 env child rest x_here color' lw)
  from "3.prems"(1) obtain first others where
    f: "draw_clade_polar env child x_here color' lw = Inr first"
    and o: "draw_descendents_polar env rest x_here color' lw = Inr others"
    and ops: "ops = first @ others"
    by (auto split: sum.splits)
  from "3.prems"(2) have a: "\<forall>d \<in> set (find_clades child). format_branch_label env d = None"
    and b: "\<forall>d \<in> set (concat (map find_clades rest)). format_branch_label env d = None" by auto
  from "3.IH"(1)[OF f a] "3.IH"(2)[OF f o b] ops show ?case by simp
qed

text \<open>
  Claim C4 as stated fails for the polar script: with the leaf \<open>A\<close> in the mark set,
  \<open>drawMark\<close> of circTrees.py returns a figure that contains no text at all.
\<close>

theorem marked_labels_counterexample:
  "leaf 2 ''A'' 1 \<in> set (get_terminals tree_abc)
   \<and> opt_label_func (default_options [''A'']) (leaf 2 ''A'' 1) = Some ''A''
   \<and> ''A'' \<in> set (opt_mark (default_options [''A'']))
   \<and> map_sum id (filter is_text \<circ> drawn) (drawMark_polar plt_ok tree_abc (default_options [''A'']))
       = Inr []"
proof -
  let ?opts = "default_options [''A'']"
  from drawMark_polar_default_ok[OF wf_tree_abc, of "[''A'']"] obtain fig where
    fig: "drawMark_polar plt_ok tree_abc ?opts = Inr fig" by blast
  have fbl: "make_format_branch_label (py_str_int plt_ok) (py_str_float plt_ok) (opt_branch_labels ?opts)
           (opt_show_confidence ?opts)
         = Inr (\<lambda>clade. case confidence clade of None \<Rightarrow> None
                          | Some conf \<Rightarrow> Some (conf2str (\<lambda>i. ''int'') (\<lambda>r. ''float'') conf))"
    by (simp add: make_format_branch_label_def default_options_def plt_ok_def
        cong: option.case_cong)
  from fig obtain xs ys where
    dr: "draw_clade_polar (make_env plt_ok ?opts
            (\<lambda>clade. case confidence clade of None \<Rightarrow> None
                          | Some conf \<Rightarrow> Some (conf2str (\<lambda>i. ''int'') (\<lambda>r. ''float'') conf))
            xs ys)
           (root_clade tree_abc) 0 ''k'' (lines_linewidth plt_ok) = Inr (drawn fig)"
    unfolding drawMark_polar_def fbl
    by (auto split: sum.splits axes_option.splits option.splits prod.splits)
  have "filter is_text (drawn fig) = []"
    by (rule draw_clade_polar_no_text[OF dr]) (simp add: make_env_def tree_abc_def leaf_def)
  with fig show ?thesis
    by (simp add: terminals_abc default_options_def leaf_def)
qed

lemma drawMark_no_KeyError:
  assumes wf: "wf_tree t"
  shows "drawMark P t opts \<noteq> Inl KeyError"
proof -
  from layout_draw_ok[OF wf] obtain ys where ys: "get_y_positions t = Inr ys"
    and dr: "\<forall>env x0 c0 lw0. x_posns env = get_x_positions t \<and> y_posns env = ys \<longrightarrow>
                 (\<exists>ops. draw_clade env (root_clade t) x0 c0 lw0 = Inr ops)" by blast
  have d: "\<exists>ops. draw_clade (make_env P opts fbl (get_x_positions t) ys) (root_clade t) 0 ''k''
             (lines_linewidth P) = Inr ops" for fbl
    using dr[rule_format, of "make_env P opts fbl (get_x_positions t) ys"]
    by (simp add: make_env_def)
  show ?thesis
  proof (cases "import_plt trees_py_globals P")
    case (Inl e)
    then show ?thesis by (auto simp: drawMark_def import_plt_def split: if_splits)
  next
    case imp: (Inr plt)
    show ?thesis
    proof (cases "make_format_branch_label (py_str_int P) (py_str_float P)
             (opt_branch_labels opts) (opt_show_confidence opts)")
      case (Inl e)
      then show ?thesis using imp
        by (auto simp: drawMark_def make_format_branch_label_def Let_def
            split: branch_labels_option.splits if_splits)
    next
      case fb: (Inr fbl)
      from d[of fbl] obtain ops where ops: "draw_clade (make_env P opts fbl (get_x_positions t) ys)
          (root_clade t) 0 ''k'' (lines_linewidth P) = Inr ops" by blast
      show ?thesis using imp fb ys ops process_kwargs_no_KeyError[of P "opt_kwargs opts"]
        by (auto simp: drawMark_def split: axes_option.splits sum.splits)
    qed
  qed
qed

lemma drawMark_polar_no_KeyError:
  assumes wf: "wf_tree t"
  shows "drawMark_polar P t opts \<noteq> Inl KeyError"
proof -
  from layout_draw_polar_ok[OF wf, of None] obtain td xs ys where
    xs: "get_x_positions_polar t True None = Inr (Some td, xs)"
    and ys: "get_y_positions_polar t = Inr ys"
    and dr: "\<forall>env x0 c0 lw0. x_posns env = xs \<and> y_posns env = ys \<longrightarrow>
                 (\<exists>ops. draw_clade_polar env (root_clade t) x0 c0 lw0 = Inr ops)" by blast
  have d: "\<exists>ops. draw_clade_polar (make_env P opts fbl xs ys) (root_clade t) 0 ''k''
             (lines_linewidth P) = Inr ops" for fbl
    using dr[rule_format, of "make_env P opts fbl xs ys"] by (simp add: make_env_def)
  show ?thesis
  proof (cases "import_plt circTrees_py_globals P")
    case (Inl e)
    then show ?thesis by (auto simp: drawMark_polar_def import_plt_def split: if_splits)
  next
    case imp: (Inr plt)
    show ?thesis
    proof (cases "make_format_branch_label (py_str_int P) (py_str_float P)
             (opt_branch_labels opts) (opt_show_confidence opts)")
      case (Inl e)
      then show ?thesis using imp
        by (auto simp: drawMark_polar_def make_format_branch_label_def Let_def
            split: branch_labels_option.splits if_splits)
    next
      case fb: (Inr fbl)
      from d[of fbl] obtain ops where ops: "draw_clade_polar (make_env P opts fbl xs ys)
          (root_clade t) 0 ''k'' (lines_linewidth P) = Inr ops" by blast
      show ?thesis using imp fb xs ys ops process_kwargs_no_KeyError[of P "opt_kwargs opts"]
        by (auto simp: drawMark_polar_def split: axes_option.splits sum.splits)
    qed
  qed
qed

text \<open>
  Claim C9. On every tree (\<open>wf_tree\<close>) the dictionaries of \<open>get_x_positions\<close> and \<open>get_y_positions\<close> have
  an entry for every clade, \<open>draw_clade\<close> run with them from the root returns its drawing,
  and \<open>drawMark\<close> never ends in a KeyError; in the rectangular and in the polar script.
\<close>

theorem layout_covers_every_clade:
  assumes "wf_tree t"
  shows "(\<exists>ys. get_y_positions t = Inr ys
            \<and> (\<forall>d \<in> set (find_clades (root_clade t)).
                  get_x_positions t (oid d) \<noteq> None \<and> ys (oid d) \<noteq> None)
            \<and> (\<forall>env x0 c0 lw0. x_posns env = get_x_positions t \<and> y_posns env = ys \<longrightarrow>
                  (\<exists>ops. draw_clade env (root_clade t) x0 c0 lw0 = Inr ops)))
       \<and> (\<exists>td xs ys. get_x_positions_polar t True g = Inr (Some td, xs)
            \<and> get_y_positions_polar t = Inr ys
            \<and> (\<forall>d \<in> set (find_clades (root_clade t)). xs (oid d) \<noteq> None \<and> ys (oid d) \<noteq> None)
            \<and> (\<forall>env x0 c0 lw0. x_posns env = xs \<and> y_posns env = ys \<longrightarrow>
                  (\<exists>ops. draw_clade_polar env (root_clade t) x0 c0 lw0 = Inr ops)))
       \<and> drawMark P t opts \<noteq> Inl KeyError
       \<and> drawMark_polar P t opts \<noteq> Inl KeyError"
  using layout_draw_ok[OF assms] layout_draw_polar_ok[OF assms, of g]
    drawMark_no_KeyError[OF assms, of P opts] drawMark_polar_no_KeyError[OF assms, of P opts]
  by blast

theorem layout_covers_every_clade_witness:
  "wf_tree tree_abc
   \<and> (\<exists>ys. get_y_positions tree_abc = Inr ys
        \<and> get_x_positions tree_abc (oid (leaf 4 ''C'' 1)) \<noteq> None
        \<and> ys (oid (leaf 4 ''C'' 1)) \<noteq> None)
   \<and> drawMark plt_ok tree_abc (default_options []) \<noteq> Inl KeyError
   \<and> drawMark_polar plt_ok tree_abc (default_options []) \<noteq> Inl KeyError"
proof -
  have c: "leaf 4 ''C'' 1 \<in> set (find_clades (root_clade tree_abc))"
    by (simp add: tree_abc_def leaf_def)
  from layout_covers_every_clade[OF wf_tree_abc, of None plt_ok "default_options []"] c wf_tree_abc
  show ?thesis by blast
qed

lemma x_single_leaf:
  "get_x_positions (Tree (Clade i n b cf col w []) tn)
     = [i \<mapsto> (case b of None \<Rightarrow> 0 | Some v \<Rightarrow> v)]"
  by (simp add: get_x_positions_def depths_def branch_length_or_0_def Let_def)

text \<open>
  Claim C5. On a tree that is a single leaf the rectangular layout raises nothing:
  \<open>get_y_positions\<close> returns the dictionary with the one entry 1 for that leaf, whatever the
  leaf carries, and \<open>draw_clade\<close> returns the leaf's horizontal line, label and branch label.
\<close>

theorem single_leaf_layout:
  "get_y_positions (Tree (Clade i n b cf col w []) tn) = Inr [i \<mapsto> 1]
   \<and> draw_clade
        (make_env P opts fbl (get_x_positions (Tree (Clade i n b cf col w []) tn)) [i \<mapsto> 1])
        (root_clade (Tree (Clade i n b cf col w []) tn)) 0 ''k'' (lines_linewidth P)
     = Inr (HorizontalCollection [(0, 1), (case b of None \<Rightarrow> 0 | Some v \<Rightarrow> v, 1)]
              (case col of None \<Rightarrow> ''k'' | Some c \<Rightarrow> to_hex c)
              (case w of None \<Rightarrow> lines_linewidth P | Some wd \<Rightarrow> wd * lines_linewidth P)
            # label_text
                (make_env P opts fbl (get_x_positions (Tree (Clade i n b cf col w []) tn)) [i \<mapsto> 1])
                (Clade i n b cf col w []) (case b of None \<Rightarrow> 0 | Some v \<Rightarrow> v) 1
            @ conf_text
                (make_env P opts fbl (get_x_positions (Tree (Clade i n b cf col w []) tn)) [i \<mapsto> 1])
                (Clade i n b cf col w []) 0 (case b of None \<Rightarrow> 0 | Some v \<Rightarrow> v) 1)"
proof
  show "get_y_positions (Tree (Clade i n b cf col w []) tn) = Inr [i \<mapsto> 1]"
    by (simp add: get_y_positions_def get_terminals_def is_terminal_def count_terminals_def
        tip_heights_def tip_entry_def)
next
  show "draw_clade
        (make_env P opts fbl (get_x_positions (Tree (Clade i n b cf col w []) tn)) [i \<mapsto> 1])
        (root_clade (Tree (Clade i n b cf col w []) tn)) 0 ''k'' (lines_linewidth P)
     = Inr (HorizontalCollection [(0, 1), (case b of None \<Rightarrow> 0 | Some v \<Rightarrow> v, 1)]
              (case col of None \<Rightarrow> ''k'' | Some c \<Rightarrow> to_hex c)
              (case w of None \<Rightarrow> lines_linewidth P | Some wd \<Rightarrow> wd * lines_linewidth P)
            # label_text
                (make_env P opts fbl (get_x_positions (Tree (Clade i n b cf col w []) tn)) [i \<mapsto> 1])
                (Clade i n b cf col w []) (case b of None \<Rightarrow> 0 | Some v \<Rightarrow> v) 1
            @ conf_text
                (make_env P opts fbl (get_x_positions (Tree (Clade i n b cf col w []) tn)) [i \<mapsto> 1])
                (Clade i n b cf col w []) 0 (case b of None \<Rightarrow> 0 | Some v \<Rightarrow> v) 1)"
    unfolding x_single_leaf
    by (simp add: make_env_def draw_clade_lines_def Let_def cong: option.case_cong)
qed

















section \<open>Keyword arguments, the missing plotting library, and files\<close>














text \<open>
  Claim C7 does not hold of the code. With neither plotting library importable the
  \<open>raise\<close> statement of \<open>drawMark\<close> evaluates the name \<open>MissingPythonDependencyError\<close>, which
  neither script imports or defines, and the call ends in a NameError, in both scripts.
\<close>

theorem missing_dependency_name_error:
  "drawMark (P\<lparr>pyplot_importable := False, pylab_importable := False\<rparr>) t opts
     = Inl (NameError ''MissingPythonDependencyError'')
   \<and> drawMark_polar (P\<lparr>pyplot_importable := False, pylab_importable := False\<rparr>) t opts
     = Inl (NameError ''MissingPythonDependencyError'')"
  by (simp add: drawMark_def drawMark_polar_def import_plt_def trees_py_globals_def
      circTrees_py_globals_def)





end
